theory Spec2Isabelle
  imports Main "HOL-Library.Word" "HOL-Library.Multiset"
begin

unbundle bit_operations_syntax

section \<open>Go values used by the converters\<close>

type_synonym byte = "8 word"
type_synonym uint16 = "16 word"
type_synonym uint32 = "32 word"

text \<open>
  Run-time failures of the Go programs: the panics (index out of range, nil dereference,
  make with a negative length) and the error values of the os, io and encoding/binary
  packages that the functions return to their callers.
\<close>

datatype error =
    IndexOutOfRange
  | NilDereference
  | MakeSliceLen
  | EOF
  | ErrUnexpectedEOF
  | NegativeRectangle
  | OpenError
  | CreateError
  | WriteError

text \<open>
  A \<open>color.Color\<close> is an interface with the single method \<open>RGBA()\<close>, which returns four
  \<open>uint32\<close> values, each within \<open>[0, 0xffff]\<close>. A colour is identified with these four
  16-bit channel values; \<open>RGBA\<close> widens them to \<open>uint32\<close> as the method does.
\<close>

datatype color = Col (red: uint16) (green: uint16) (blue: uint16) (alpha: uint16)

definition RGBA :: "color \<Rightarrow> uint32 \<times> uint32 \<times> uint32 \<times> uint32" where
  "RGBA c = (ucast (red c), ucast (green c), ucast (blue c), ucast (alpha c))"

text \<open>\<open>color.RGBA{R, G, B, A}\<close>: its \<open>RGBA()\<close> method computes \<open>r |= r << 8\<close> per channel.\<close>

definition widen8 :: "byte \<Rightarrow> uint16" where
  "widen8 v = ucast v OR push_bit 8 (ucast v)"

definition colorRGBA :: "byte \<Rightarrow> byte \<Rightarrow> byte \<Rightarrow> byte \<Rightarrow> color" where
  "colorRGBA r g b a = Col (widen8 r) (widen8 g) (widen8 b) (widen8 a)"

text \<open>Go's \<open>int\<close> is 64 bits wide on the targets of the converters.\<close>

definition maxInt :: int where
  "maxInt = 2 ^ 63 - 1"

section \<open>Package imgcolor\<close>

record ColorCount =
  Color :: color
  Count :: int

text \<open>
  \<open>colorDistanceSquared\<close>: the six channel values are shifted right by 8 and the
  differences are squared as \<open>int\<close>.
\<close>

definition colorDistanceSquared :: "color \<Rightarrow> color \<Rightarrow> int" where
  "colorDistanceSquared c1 c2 =
     (case RGBA c1 of (r1, g1, b1, _) \<Rightarrow>
      case RGBA c2 of (r2, g2, b2, _) \<Rightarrow>
        let r1 = drop_bit 8 r1; g1 = drop_bit 8 g1; b1 = drop_bit 8 b1;
            r2 = drop_bit 8 r2; g2 = drop_bit 8 g2; b2 = drop_bit 8 b2;
            rd = uint r1 - uint r2;
            gd = uint g1 - uint g2;
            bd = uint b1 - uint b2
        in rd * rd + gd * gd + bd * bd)"

text \<open>
  The loop \<open>for i, p := range palette\<close> of \<open>NearestColorIndex\<close>, with the running
  \<open>(minDist, minIndex)\<close> as its state.
\<close>

fun nearestLoop :: "color \<Rightarrow> color list \<Rightarrow> int \<Rightarrow> int \<times> int \<Rightarrow> int \<times> int" where
  "nearestLoop targetColor [] i (minDist, minIndex) = (minDist, minIndex)"
| "nearestLoop targetColor (p # ps) i (minDist, minIndex) =
     (let dist = colorDistanceSquared targetColor p
      in if dist < minDist
         then nearestLoop targetColor ps (i + 1) (dist, i)
         else nearestLoop targetColor ps (i + 1) (minDist, minIndex))"

definition NearestColorIndex :: "color list \<Rightarrow> color \<Rightarrow> int" where
  "NearestColorIndex palette targetColor = snd (nearestLoop targetColor palette 0 (maxInt, 0))"

text \<open>
  \<open>ExtractPalette\<close>. Two things the function uses are not fixed by the repository:
  the order in which \<open>range\<close> visits the map \<open>colorCount\<close>, and the permutation that
  the unstable \<open>sort.Slice\<close> produces. The map is therefore given as the list of its
  entries in the order the \<open>range\<close> loop visits them (distinct colours), and the sort is
  the parameter \<open>sortSlice\<close>, called with the \<open>less\<close> function of the source.
  \<open>make([]color.Color, maxColors)\<close> panics for a negative length.
\<close>

definition byCountDesc :: "ColorCount \<Rightarrow> ColorCount \<Rightarrow> bool" where
  "byCountDesc ci cj = (Count ci > Count cj)"

definition ExtractPalette ::
  "((ColorCount \<Rightarrow> ColorCount \<Rightarrow> bool) \<Rightarrow> ColorCount list \<Rightarrow> ColorCount list) \<Rightarrow>
   (color \<times> int) list \<Rightarrow> int \<Rightarrow> error + color list" where
  "ExtractPalette sortSlice colorCount maxColors =
     (let colors = map (\<lambda>(c, count). \<lparr>Color = c, Count = count\<rparr>) colorCount;
          colors = sortSlice byCountDesc colors;
          maxColors = (if maxColors = -1 \<or> maxColors > int (length colors)
                       then int (length colors) else maxColors)
      in if maxColors < 0 then Inl MakeSliceLen
         else Inr (map Color (take (nat maxColors) colors)))"

text \<open>
  \<open>sortColors\<close> (the package's second ordering): \<open>sort.SliceStable\<close> with count descending,
  then the \<open>RGBA()\<close> values ascending.
\<close>

definition sortColorsLess :: "ColorCount \<Rightarrow> ColorCount \<Rightarrow> bool" where
  "sortColorsLess ci cj =
     (if Count ci = Count cj then
        (case RGBA (Color ci) of (r1, g1, b1, a1) \<Rightarrow>
         case RGBA (Color cj) of (r2, g2, b2, a2) \<Rightarrow>
           if r1 \<noteq> r2 then r1 < r2
           else if g1 \<noteq> g2 then g1 < g2
           else if b1 \<noteq> b2 then b1 < b2
           else a1 < a2)
      else Count ci > Count cj)"

definition sortColors ::
  "((ColorCount \<Rightarrow> ColorCount \<Rightarrow> bool) \<Rightarrow> ColorCount list \<Rightarrow> ColorCount list) \<Rightarrow>
   ColorCount list \<Rightarrow> ColorCount list" where
  "sortColors sortSliceStable colors = sortSliceStable sortColorsLess colors"

text \<open>
  The sort package sorts slices of at most 12 elements by insertion: each element moves
  left while \<open>less\<close> holds against its left neighbour. A concrete sort to run the
  functions above on small inputs.
\<close>

fun insertLeft :: "('a \<Rightarrow> 'a \<Rightarrow> bool) \<Rightarrow> 'a \<Rightarrow> 'a list \<Rightarrow> 'a list" where
  "insertLeft lessf v [] = [v]"
| "insertLeft lessf v (u # rev_prefix) =
     (if lessf v u then u # insertLeft lessf v rev_prefix else v # u # rev_prefix)"

fun insertionSortLoop :: "('a \<Rightarrow> 'a \<Rightarrow> bool) \<Rightarrow> 'a list \<Rightarrow> 'a list \<Rightarrow> 'a list" where
  "insertionSortLoop lessf rev_prefix [] = rev rev_prefix"
| "insertionSortLoop lessf rev_prefix (v # rest) =
     insertionSortLoop lessf (insertLeft lessf v rev_prefix) rest"

definition insertionSort :: "('a \<Rightarrow> 'a \<Rightarrow> bool) \<Rightarrow> 'a list \<Rightarrow> 'a list" where
  "insertionSort lessf data = insertionSortLoop lessf [] data"


section \<open>The image, os and encoding/binary packages, as the converters use them\<close>

record Rectangle =
  MinX :: int
  MinY :: int
  MaxX :: int
  MaxY :: int

definition Dx :: "Rectangle \<Rightarrow> int" where
  "Dx r = MaxX r - MinX r"

definition Dy :: "Rectangle \<Rightarrow> int" where
  "Dy r = MaxY r - MinY r"

definition PointIn :: "int \<Rightarrow> int \<Rightarrow> Rectangle \<Rightarrow> bool" where
  "PointIn x y r = (MinX r \<le> x \<and> x < MaxX r \<and> MinY r \<le> y \<and> y < MaxY r)"

text \<open>\<open>image.Rect(x0, y0, x1, y1)\<close> swaps its arguments where they are out of order.\<close>

definition imageRect :: "int \<Rightarrow> int \<Rightarrow> int \<Rightarrow> int \<Rightarrow> Rectangle" where
  "imageRect x0 y0 x1 y1 =
     \<lparr>MinX = (if x0 > x1 then x1 else x0), MinY = (if y0 > y1 then y1 else y0),
      MaxX = (if x0 > x1 then x0 else x1), MaxY = (if y0 > y1 then y0 else y1)\<rparr>"

text \<open>
  An \<open>*image.Paletted\<close> as the image package builds it (\<open>NewPaletted\<close>, \<open>gif.DecodeAll\<close>):
  the buffer \<open>Pix\<close> holds one byte for every point of \<open>Rect\<close>, and \<open>Pix[PixOffset(x, y)]\<close>
  is the byte of the point \<open>(x, y)\<close>. The buffer is addressed by the point here, which
  leaves out \<open>Stride\<close> and the layout of the slice; the methods test \<open>Point{x, y}.In(Rect)\<close>
  exactly as the package does.
\<close>

record Paletted =
  Rect :: Rectangle
  Pix :: "int \<times> int \<Rightarrow> byte"
  Palette :: "color list"

definition NewPaletted :: "Rectangle \<Rightarrow> color list \<Rightarrow> error + Paletted" where
  "NewPaletted r p =
     (if Dx r < 0 \<or> Dy r < 0 then Inl NegativeRectangle
      else Inr \<lparr>Rect = r, Pix = (\<lambda>_. 0), Palette = p\<rparr>)"

definition ColorIndexAt :: "Paletted \<Rightarrow> int \<Rightarrow> int \<Rightarrow> byte" where
  "ColorIndexAt p x y = (if \<not> PointIn x y (Rect p) then 0 else Pix p (x, y))"

definition SetColorIndex :: "Paletted \<Rightarrow> int \<Rightarrow> int \<Rightarrow> byte \<Rightarrow> Paletted" where
  "SetColorIndex p x y index =
     (if \<not> PointIn x y (Rect p) then p else p\<lparr>Pix := (Pix p)((x, y) := index)\<rparr>)"

text \<open>
  \<open>At\<close> returns the nil interface (\<open>None\<close>) for an empty palette and panics where the
  pixel's index is not an index of the palette.
\<close>

definition At :: "Paletted \<Rightarrow> int \<Rightarrow> int \<Rightarrow> error + color option" where
  "At p x y =
     (if length (Palette p) = 0 then Inr None
      else if \<not> PointIn x y (Rect p) then Inr (Some (Palette p ! 0))
      else let i = unat (Pix p (x, y))
           in if i < length (Palette p) then Inr (Some (Palette p ! i))
              else Inl IndexOutOfRange)"

text \<open>
  An open \<open>*os.File\<close> being read is the list of the bytes after its offset.
  \<open>file.Read(b)\<close> returns \<open>0, nil\<close> for an empty buffer and \<open>0, io.EOF\<close> at the end of
  the file; otherwise it fills the front of \<open>b\<close> with the \<open>n\<close> bytes it can get, at most
  \<open>len(b)\<close>, and returns \<open>n, nil\<close>: a short read is not an error.
\<close>

type_synonym osFile = "byte list"

definition fileRead :: "osFile \<Rightarrow> byte list \<Rightarrow> (byte list \<times> nat \<times> error option) \<times> osFile" where
  "fileRead f b =
     (if b = [] then ((b, 0, None), f)
      else if f = [] then ((b, 0, Some EOF), f)
      else let n = min (length b) (length f)
           in ((take n f @ drop n b, n, None), drop n f))"

text \<open>
  The loops \<open>for i := a; i < n; i++\<close> and \<open>for x := a; x < n; x += 8\<close> over a state; a
  body that returns an error (or panics) ends the loop with it.
\<close>

function forLoop :: "int \<Rightarrow> int \<Rightarrow> (int \<Rightarrow> 's \<Rightarrow> error + 's) \<Rightarrow> 's \<Rightarrow> error + 's" where
  "forLoop i n body s =
     (if i < n
      then (case body i s of Inl err \<Rightarrow> Inl err | Inr s' \<Rightarrow> forLoop (i + 1) n body s')
      else Inr s)"
  by pat_completeness auto
termination
  by (relation "measure (\<lambda>(i, n, body, s). nat (n - i))") auto

function forLoopBy8 :: "int \<Rightarrow> int \<Rightarrow> (int \<Rightarrow> 's \<Rightarrow> error + 's) \<Rightarrow> 's \<Rightarrow> error + 's" where
  "forLoopBy8 x n body s =
     (if x < n
      then (case body x s of Inl err \<Rightarrow> Inl err | Inr s' \<Rightarrow> forLoopBy8 (x + 8) n body s')
      else Inr s)"
  by pat_completeness auto
termination
  by (relation "measure (\<lambda>(x, n, body, s). nat (n - x))") auto

declare forLoop.simps [simp del]
declare forLoopBy8.simps [simp del]

section \<open>The SAG header\<close>

text \<open>The arrays \<open>[3]byte\<close> and \<open>[768]byte\<close> are lists of that length.\<close>

record SAGHeader =
  Signature :: "byte list"
  Version :: byte
  Width :: uint16
  Height :: uint16
  FrameCount :: uint16
  FrameDelay :: uint16
  ColorPalette :: "byte list"

text \<open>
  \<open>binary.Write(file, binary.BigEndian, header)\<close> writes the fields in order, the
  \<open>uint16\<close> fields high byte first: 780 bytes. \<open>binary.Read\<close> fills the struct from
  exactly 780 bytes (\<open>io.ReadFull\<close>): \<open>io.EOF\<close> when there is none, \<open>io.ErrUnexpectedEOF\<close>
  when there are fewer.
\<close>

definition putUint16 :: "uint16 \<Rightarrow> byte list" where
  "putUint16 v = [ucast (drop_bit 8 v), ucast v]"

definition getUint16 :: "byte \<Rightarrow> byte \<Rightarrow> uint16" where
  "getUint16 b0 b1 = ucast b1 OR push_bit 8 (ucast b0)"

definition headerBytes :: "SAGHeader \<Rightarrow> byte list" where
  "headerBytes h =
     Signature h @ [Version h] @ putUint16 (Width h) @ putUint16 (Height h)
     @ putUint16 (FrameCount h) @ putUint16 (FrameDelay h) @ ColorPalette h"

definition binaryRead :: "osFile \<Rightarrow> error + (SAGHeader \<times> osFile)" where
  "binaryRead f =
     (if f = [] then Inl EOF
      else if length f < 780 then Inl ErrUnexpectedEOF
      else let b = take 780 f
           in Inr (\<lparr>Signature = take 3 b, Version = b ! 3,
                     Width = getUint16 (b ! 4) (b ! 5), Height = getUint16 (b ! 6) (b ! 7),
                     FrameCount = getUint16 (b ! 8) (b ! 9),
                     FrameDelay = getUint16 (b ! 10) (b ! 11),
                     ColorPalette = drop 12 b\<rparr>, drop 780 f))"

section \<open>sag2gif: the decoder\<close>

definition readSAGHeader :: "osFile \<Rightarrow> error + (SAGHeader \<times> osFile)" where
  "readSAGHeader f =
     (case binaryRead f of Inl err \<Rightarrow> Inl err | Inr (header, f') \<Rightarrow> Inr (header, f'))"

definition extractPalette :: "SAGHeader \<Rightarrow> color list" where
  "extractPalette header =
     map (\<lambda>i. colorRGBA (ColorPalette header ! (i * 3)) (ColorPalette header ! (i * 3 + 1))
                (ColorPalette header ! (i * 3 + 2)) 0xff) [0..<256]"

text \<open>\<open>skipIdenticalByte\<close> drops both results of \<open>file.Read\<close>.\<close>

definition skipIdenticalByte :: "osFile \<Rightarrow> osFile" where
  "skipIdenticalByte f = snd (fileRead f (replicate 1 0))"

definition readPixelBlock :: "osFile \<Rightarrow> int \<Rightarrow> int \<Rightarrow> (byte list \<times> error option) \<times> osFile" where
  "readPixelBlock f width x =
     (let pixelBlock = (if x + 8 > width then replicate (nat (width - x)) 0 else replicate 8 0)
      in case fileRead f pixelBlock of ((pixelBlock, _, err), f') \<Rightarrow> ((pixelBlock, err), f'))"

text \<open>The loop of \<open>applyPixelBlock\<close> over \<open>bit < len(pixelBlock)\<close>, on the rest of the block
  (\<open>bitIx\<close> is the loop variable \<open>bit\<close>).\<close>

fun applyPixelBlockLoop :: "Paletted \<Rightarrow> byte list \<Rightarrow> int \<Rightarrow> int \<Rightarrow> int \<Rightarrow> int \<Rightarrow> Paletted" where
  "applyPixelBlockLoop frame [] bitIx x y width = frame"
| "applyPixelBlockLoop frame (v # rest) bitIx x y width =
     applyPixelBlockLoop (if x + bitIx < width then SetColorIndex frame (x + bitIx) y v else frame)
       rest (bitIx + 1) x y width"

definition applyPixelBlock :: "Paletted \<Rightarrow> byte list \<Rightarrow> int \<Rightarrow> int \<Rightarrow> int \<Rightarrow> Paletted" where
  "applyPixelBlock frame pixelBlock x y width = applyPixelBlockLoop frame pixelBlock 0 x y width"

text \<open>
  \<open>readSAGFrames\<close>: the bodies of its three loops, innermost first. The state of the
  inner loops is the file and the frame being filled; the outer loop fills \<open>frames\<close> and
  \<open>delays\<close> in index order, so \<open>frames[i] = frame\<close> appends.
\<close>

definition readBlock :: "int \<Rightarrow> int \<Rightarrow> int \<Rightarrow> osFile \<times> Paletted \<Rightarrow> error + osFile \<times> Paletted" where
  "readBlock width y x = (\<lambda>(f, frame).
     let f = skipIdenticalByte f
     in case readPixelBlock f width x of
          ((pixelBlock, Some err), f) \<Rightarrow> Inl err
        | ((pixelBlock, None), f) \<Rightarrow> Inr (f, applyPixelBlock frame pixelBlock x y width))"

definition readRow :: "int \<Rightarrow> int \<Rightarrow> osFile \<times> Paletted \<Rightarrow> error + osFile \<times> Paletted" where
  "readRow width y = forLoopBy8 0 width (readBlock width y)"

definition readFrame ::
  "color list \<Rightarrow> int \<Rightarrow> int \<Rightarrow> int \<Rightarrow> int \<Rightarrow> osFile \<times> Paletted list \<times> int list \<Rightarrow>
   error + osFile \<times> Paletted list \<times> int list" where
  "readFrame palette width height frameDelay i = (\<lambda>(f, frames, delays).
     case NewPaletted (imageRect 0 0 width height) palette of
       Inl err \<Rightarrow> Inl err
     | Inr frame \<Rightarrow>
         (case forLoop 0 height (readRow width) (f, frame) of
            Inl err \<Rightarrow> Inl err
          | Inr (f, frame) \<Rightarrow> Inr (f, frames @ [frame], delays @ [frameDelay div 10])))"

definition readSAGFrames :: "osFile \<Rightarrow> SAGHeader \<Rightarrow> error + Paletted list \<times> int list" where
  "readSAGFrames f header =
     (let palette = extractPalette header;
          width = uint (Width header); height = uint (Height header);
          frameCount = uint (FrameCount header); frameDelay = uint (FrameDelay header)
      in case forLoop 0 frameCount (readFrame palette width height frameDelay) (f, [], []) of
           Inl err \<Rightarrow> Inl err
         | Inr (f, frames, delays) \<Rightarrow> Inr (frames, delays))"

text \<open>\<open>readSAGFile\<close>, given what \<open>os.Open(filename)\<close> returned.\<close>

definition readSAGFile :: "error + osFile \<Rightarrow> error + Paletted list \<times> int list" where
  "readSAGFile opened =
     (case opened of
        Inl err \<Rightarrow> Inl err
      | Inr f \<Rightarrow>
          (case readSAGHeader f of
             Inl err \<Rightarrow> Inl err
           | Inr (header, f) \<Rightarrow>
               (case readSAGFrames f header of
                  Inl err \<Rightarrow> Inl err
                | Inr (frames, delays) \<Rightarrow> Inr (frames, delays))))"

section \<open>gif2sag: the encoder\<close>

text \<open>
  The body of the pixel loop of \<open>applyPalette\<close>. \<open>NearestColorIndex\<close> calls \<open>RGBA()\<close> on
  its target once per palette entry, so a nil target panics unless the palette is
  empty, where the function returns its initial \<open>minIndex\<close>.
\<close>

definition applyPalettePixel ::
  "Paletted \<Rightarrow> color list \<Rightarrow> int \<Rightarrow> int \<Rightarrow> Paletted \<Rightarrow> error + Paletted" where
  "applyPalettePixel frame palette y x newFrame =
     (case At frame x y of
        Inl err \<Rightarrow> Inl err
      | Inr None \<Rightarrow>
          if palette = [] then Inr (SetColorIndex newFrame x y (of_int 0))
          else Inl NilDereference
      | Inr (Some oldColor) \<Rightarrow>
          (let index = NearestColorIndex palette oldColor
           in Inr (SetColorIndex newFrame x y (of_int index))))"

definition applyPalette :: "Paletted \<Rightarrow> color list \<Rightarrow> error + Paletted" where
  "applyPalette frame palette =
     (let bounds = Rect frame
      in case NewPaletted bounds palette of
           Inl err \<Rightarrow> Inl err
         | Inr newFrame \<Rightarrow>
             forLoop (MinY bounds) (MaxY bounds)
               (\<lambda>y. forLoop (MinX bounds) (MaxX bounds) (applyPalettePixel frame palette y))
               newFrame)"

text \<open>
  What the storage layer answers to \<open>writeSAGFile\<close>: the error of \<open>os.Create\<close> and the
  error of \<open>binary.Write\<close>, if any. The results of the \<open>file.Write\<close> calls of the frame
  loop are dropped by the source; the file is the list of the bytes written to it.
\<close>

record Storage =
  CreateErr :: "error option"
  HeaderWriteErr :: "error option"

text \<open>An assignment \<open>a[k] = v\<close> to an array: a panic when \<open>k\<close> is out of range.\<close>

definition setByte :: "byte list \<Rightarrow> int \<Rightarrow> byte \<Rightarrow> error + byte list" where
  "setByte a k v =
     (if 0 \<le> k \<and> k < int (length a) then Inr (a[nat k := v]) else Inl IndexOutOfRange)"

text \<open>The loop \<open>for i, c := range palette\<close> that fills \<open>header.ColorPalette\<close>.\<close>

fun storePalette :: "color list \<Rightarrow> int \<Rightarrow> byte list \<Rightarrow> error + byte list" where
  "storePalette [] i cp = Inr cp"
| "storePalette (c # cs) i cp =
     (case RGBA c of (r, g, b, _) \<Rightarrow>
        (case setByte cp (i * 3) (ucast (drop_bit 8 r)) of
           Inl err \<Rightarrow> Inl err
         | Inr cp \<Rightarrow>
             (case setByte cp (i * 3 + 1) (ucast (drop_bit 8 g)) of
                Inl err \<Rightarrow> Inl err
              | Inr cp \<Rightarrow>
                  (case setByte cp (i * 3 + 2) (ucast (drop_bit 8 b)) of
                     Inl err \<Rightarrow> Inl err
                   | Inr cp \<Rightarrow> storePalette cs (i + 1) cp))))"

text \<open>
  The loop \<open>for bit := 0; bit < 8; bit++\<close> of a block, with its \<open>break\<close>; the state is
  \<open>(identicalByte, pixelBlock)\<close> and \<open>bitIx\<close> is the loop variable \<open>bit\<close>.
\<close>

function blockLoop ::
  "Paletted \<Rightarrow> Paletted option \<Rightarrow> int \<Rightarrow> int \<Rightarrow> int \<Rightarrow> int \<Rightarrow> byte \<times> byte list \<Rightarrow> byte \<times> byte list" where
  "blockLoop frame prevFrame x y width bitIx (identicalByte, pixelBlock) =
     (if bitIx < 8 then
        if x + bitIx \<ge> width then (identicalByte, pixelBlock)
        else
          let currentPixel = ColorIndexAt frame (x + bitIx) y;
              identicalByte =
                (if (case prevFrame of None \<Rightarrow> False
                     | Some pf \<Rightarrow> ColorIndexAt pf (x + bitIx) y = currentPixel)
                 then identicalByte OR push_bit (nat (7 - bitIx)) 1
                 else identicalByte)
          in blockLoop frame prevFrame x y width (bitIx + 1)
               (identicalByte, pixelBlock @ [currentPixel])
      else (identicalByte, pixelBlock))"
  by pat_completeness auto
termination
  by (relation "measure (\<lambda>(frame, prevFrame, x, y, width, bitIx, st). nat (8 - bitIx))") auto

declare blockLoop.simps [simp del]

text \<open>The bodies of the loops over \<open>x\<close>, \<open>y\<close> and \<open>i\<close>; the state is the file written so far.\<close>

definition writeBlock ::
  "Paletted \<Rightarrow> Paletted option \<Rightarrow> int \<Rightarrow> int \<Rightarrow> int \<Rightarrow> byte list \<Rightarrow> error + byte list" where
  "writeBlock frame prevFrame width y x out =
     (case blockLoop frame prevFrame x y width 0 (0, []) of
        (identicalByte, pixelBlock) \<Rightarrow> Inr ((out @ [identicalByte]) @ pixelBlock))"

definition writeRow ::
  "Paletted \<Rightarrow> Paletted option \<Rightarrow> int \<Rightarrow> int \<Rightarrow> byte list \<Rightarrow> error + byte list" where
  "writeRow frame prevFrame width y = forLoopBy8 0 width (writeBlock frame prevFrame width y)"

definition writeFrame ::
  "Paletted list \<Rightarrow> int \<Rightarrow> int \<Rightarrow> int \<Rightarrow> byte list \<Rightarrow> error + byte list" where
  "writeFrame frames width height i =
     (let frame = frames ! nat i;
          prevFrame = (if i > 0 then Some (frames ! nat (i - 1)) else None)
      in forLoop 0 height (writeRow frame prevFrame width))"

text \<open>
  \<open>writeSAGFile\<close>. \<open>frames[0]\<close> and \<open>delays[0]\<close> panic on empty slices; the casts to
  \<open>uint16\<close> truncate. On success the result is the content of the file written.
\<close>

definition writeSAGFile ::
  "Storage \<Rightarrow> Paletted list \<Rightarrow> int list \<Rightarrow> color list \<Rightarrow> error + byte list" where
  "writeSAGFile fs frames delays palette =
     (if frames = [] then Inl IndexOutOfRange
      else if delays = [] then Inl IndexOutOfRange
      else
        let width = (of_int (Dx (Rect (frames ! 0))) :: uint16);
            height = (of_int (Dy (Rect (frames ! 0))) :: uint16);
            frameCount = (of_int (int (length frames)) :: uint16);
            frameDelay = (of_int (delays ! 0 * 10) :: uint16);
            header = \<lparr>Signature = [0x53, 0x41, 0x47], Version = 0x01, Width = width,
                       Height = height, FrameCount = frameCount, FrameDelay = frameDelay,
                       ColorPalette = replicate 768 0\<rparr>
        in case storePalette palette 0 (ColorPalette header) of
             Inl err \<Rightarrow> Inl err
           | Inr cp \<Rightarrow>
               (let header = header\<lparr>ColorPalette := cp\<rparr>
                in case CreateErr fs of
                     Some err \<Rightarrow> Inl err
                   | None \<Rightarrow>
                       (case HeaderWriteErr fs of
                          Some err \<Rightarrow> Inl err
                        | None \<Rightarrow>
                            forLoop 0 (int (length frames))
                              (writeFrame frames (uint width) (uint height))
                              (headerBytes header))))"

section \<open>Notions of the specification\<close>

text \<open>
  The distance as the specification words it: the squared Euclidean distance over the
  top 8 bits of the red, green and blue 16-bit channels, alpha ignored.
\<close>

definition top8 :: "uint16 \<Rightarrow> int" where
  "top8 v = uint v div 2 ^ 8"

definition rgbDistanceSquared :: "color \<Rightarrow> color \<Rightarrow> int" where
  "rgbDistanceSquared c1 c2 =
     (top8 (red c1) - top8 (red c2))\<^sup>2 + (top8 (green c1) - top8 (green c2))\<^sup>2
     + (top8 (blue c1) - top8 (blue c2))\<^sup>2"

text \<open>
  The index grid of a frame: its palette indices row by row over its bounds.
\<close>

definition indexGrid :: "Paletted \<Rightarrow> byte list list" where
  "indexGrid p =
     map (\<lambda>y. map (\<lambda>x. ColorIndexAt p x y) [MinX (Rect p)..MaxX (Rect p) - 1])
       [MinY (Rect p)..MaxY (Rect p) - 1]"

text \<open>
  The contract of \<open>sort.Slice\<close> and \<open>sort.SliceStable\<close> at one call: the result is a
  permutation of the slice in which no element is \<open>less\<close> than an element before it.
  \<open>entries\<close> is the slice \<open>ExtractPalette\<close> builds from the map.
\<close>

definition entries :: "(color \<times> int) list \<Rightarrow> ColorCount list" where
  "entries colorCount = map (\<lambda>(c, count). \<lparr>Color = c, Count = count\<rparr>) colorCount"

definition sortSliceContract ::
  "(('a \<Rightarrow> 'a \<Rightarrow> bool) \<Rightarrow> 'a list \<Rightarrow> 'a list) \<Rightarrow> ('a \<Rightarrow> 'a \<Rightarrow> bool) \<Rightarrow> 'a list \<Rightarrow> bool" where
  "sortSliceContract sortSlice lessf xs =
     (mset (sortSlice lessf xs) = mset xs \<and> sorted_wrt (\<lambda>a b. \<not> lessf b a) (sortSlice lessf xs))"

text \<open>
  The block layout of the specification: the blocks of a row start at the columns
  \<open>0, 8, 16, ...\<close> below the width; a block is its mask byte followed by the index bytes
  of its pixels; bit \<open>7 - b\<close> of the mask stands for the pixel at column \<open>x + b\<close>.
  \<open>maskFrom\<close> is the part of the mask contributed by the positions from \<open>b\<close> on.
\<close>

function blockStarts :: "int \<Rightarrow> int \<Rightarrow> int list" where
  "blockStarts x n = (if x < n then x # blockStarts (x + 8) n else [])"
  by pat_completeness auto
termination
  by (relation "measure (\<lambda>(x, n). nat (n - x))") auto
declare blockStarts.simps [simp del]

definition blockPixels :: "Paletted \<Rightarrow> int \<Rightarrow> int \<Rightarrow> int \<Rightarrow> byte list" where
  "blockPixels frame x y width =
     map (\<lambda>b. ColorIndexAt frame (x + b) y) [0..min 8 (width - x) - 1]"

definition identicalBit :: "Paletted \<Rightarrow> Paletted option \<Rightarrow> int \<Rightarrow> int \<Rightarrow> int \<Rightarrow> int \<Rightarrow> bool" where
  "identicalBit frame prevFrame x y width b =
     (0 \<le> b \<and> b < 8 \<and> x + b < width \<and>
      (case prevFrame of None \<Rightarrow> False
       | Some pf \<Rightarrow> ColorIndexAt pf (x + b) y = ColorIndexAt frame (x + b) y))"

definition identicalMask :: "Paletted \<Rightarrow> Paletted option \<Rightarrow> int \<Rightarrow> int \<Rightarrow> int \<Rightarrow> byte" where
  "identicalMask frame prevFrame x y width =
     foldr (\<lambda>b m. if identicalBit frame prevFrame x y width (int b)
                   then m OR push_bit (7 - b) 1 else m) [0..<8] 0"

definition maskFrom :: "Paletted \<Rightarrow> Paletted option \<Rightarrow> int \<Rightarrow> int \<Rightarrow> int \<Rightarrow> nat \<Rightarrow> byte" where
  "maskFrom frame prevFrame x y width b =
     foldr (\<lambda>b m. if identicalBit frame prevFrame x y width (int b)
                   then m OR push_bit (7 - b) 1 else m) [b..<8] 0"

definition prevOf :: "Paletted list \<Rightarrow> nat \<Rightarrow> Paletted option" where
  "prevOf frames i = (if i > 0 then Some (frames ! (i - 1)) else None)"

definition blockBytes :: "Paletted \<Rightarrow> Paletted option \<Rightarrow> int \<Rightarrow> int \<Rightarrow> int \<Rightarrow> byte list" where
  "blockBytes frame prevFrame width y x =
     identicalMask frame prevFrame x y width # blockPixels frame x y width"

definition rowBytes :: "Paletted \<Rightarrow> Paletted option \<Rightarrow> int \<Rightarrow> int \<Rightarrow> byte list" where
  "rowBytes frame prevFrame width y =
     concat (map (blockBytes frame prevFrame width y) (blockStarts 0 width))"

definition frameBytes :: "Paletted list \<Rightarrow> int \<Rightarrow> int \<Rightarrow> nat \<Rightarrow> byte list" where
  "frameBytes frames width height i =
     concat (map (rowBytes (frames ! i) (prevOf frames i) width) [0..height - 1])"

text \<open>
  The same layout read off the index grids of the frames: the pixel of a frame at column
  \<open>x\<close> and row \<open>y\<close> is the entry \<open>x\<close> of row \<open>y\<close> of its index grid. \<open>gridBlock\<close> is the
  list of the pixels of a block, \<open>gridBit\<close> says that position \<open>b\<close> of a block is a column
  of the frame at which the previous frame has the same pixel, and \<open>gridMask\<close> is the
  byte whose bit \<open>7 - b\<close> is \<open>gridBit\<close> at \<open>b\<close>.
\<close>

definition gridBlock :: "Paletted \<Rightarrow> int \<Rightarrow> int \<Rightarrow> int \<Rightarrow> byte list" where
  "gridBlock frame x y width =
     map (\<lambda>b. indexGrid frame ! nat y ! nat (x + b)) [0..min 8 (width - x) - 1]"

definition gridBit :: "Paletted \<Rightarrow> Paletted option \<Rightarrow> int \<Rightarrow> int \<Rightarrow> int \<Rightarrow> int \<Rightarrow> bool" where
  "gridBit frame prevFrame x y width b =
     (0 \<le> b \<and> b < 8 \<and> x + b < width \<and>
      (case prevFrame of None \<Rightarrow> False
       | Some pf \<Rightarrow> indexGrid pf ! nat y ! nat (x + b) = indexGrid frame ! nat y ! nat (x + b)))"

definition gridMask :: "Paletted \<Rightarrow> Paletted option \<Rightarrow> int \<Rightarrow> int \<Rightarrow> int \<Rightarrow> byte" where
  "gridMask frame prevFrame x y width =
     foldr (\<lambda>b m. if gridBit frame prevFrame x y width (int b)
                   then m OR push_bit (7 - b) 1 else m) [0..<8] 0"

text \<open>
  The header \<open>writeSAGFile\<close> builds, given the palette bytes \<open>cp\<close> it stored.
\<close>

definition sagHeader :: "Paletted list \<Rightarrow> int list \<Rightarrow> byte list \<Rightarrow> SAGHeader" where
  "sagHeader frames delays cp =
     \<lparr>Signature = [0x53, 0x41, 0x47], Version = 0x01,
      Width = of_int (Dx (Rect (frames ! 0))), Height = of_int (Dy (Rect (frames ! 0))),
      FrameCount = of_int (int (length frames)), FrameDelay = of_int (delays ! 0 * 10),
      ColorPalette = cp\<rparr>"

section \<open>Notions of the proofs\<close>

text \<open>
  A loop over an explicit list of indices: the two \<open>for\<close> loops are such folds.
\<close>

fun foldE :: "('a \<Rightarrow> 's \<Rightarrow> error + 's) \<Rightarrow> 'a list \<Rightarrow> 's \<Rightarrow> error + 's" where
  "foldE body [] s = Inr s"
| "foldE body (x # xs) s =
     (case body x s of Inl err \<Rightarrow> Inl err | Inr s' \<Rightarrow> foldE body xs s')"

text \<open>
  What the decoder does to a frame when the reads succeed: one block, one row, one frame
  of the source \<open>src\<close> written into \<open>fr\<close>, and the frame decoded for \<open>src\<close>.
\<close>

definition decodeBlockPure :: "Paletted \<Rightarrow> int \<Rightarrow> int \<Rightarrow> int \<Rightarrow> Paletted \<Rightarrow> Paletted" where
  "decodeBlockPure src width y x fr = applyPixelBlock fr (blockPixels src x y width) x y width"

definition decodeRowPure :: "Paletted \<Rightarrow> int \<Rightarrow> int \<Rightarrow> Paletted \<Rightarrow> Paletted" where
  "decodeRowPure src width y fr = fold (decodeBlockPure src width y) (blockStarts 0 width) fr"

definition decodeFramePure :: "Paletted \<Rightarrow> int \<Rightarrow> int \<Rightarrow> Paletted \<Rightarrow> Paletted" where
  "decodeFramePure src width height fr = fold (decodeRowPure src width) [0..height - 1] fr"

definition decodedFrame :: "color list \<Rightarrow> int \<Rightarrow> int \<Rightarrow> Paletted \<Rightarrow> Paletted" where
  "decodedFrame palette width height src =
     decodeFramePure src width height
       \<lparr>Rect = imageRect 0 0 width height, Pix = (\<lambda>_. 0), Palette = palette\<rparr>"

text \<open>
  What \<open>applyPalette\<close> writes: the index of one pixel (an error where \<open>At\<close> or
  \<open>NearestColorIndex\<close> panics), the frame with that pixel set, and the frame with all of them
  set. \<open>validFrame\<close> says that every pixel of the frame indexes its own palette, over the
  rows and columns of its bounds.
\<close>

definition pixelValue :: "Paletted \<Rightarrow> color list \<Rightarrow> int \<Rightarrow> int \<Rightarrow> error + byte" where
  "pixelValue frame palette x y =
     (case At frame x y of
        Inl err \<Rightarrow> Inl err
      | Inr None \<Rightarrow> if palette = [] then Inr 0 else Inl NilDereference
      | Inr (Some oldColor) \<Rightarrow> Inr (of_int (NearestColorIndex palette oldColor)))"

definition setPixel :: "Paletted \<Rightarrow> color list \<Rightarrow> int \<Rightarrow> int \<Rightarrow> Paletted \<Rightarrow> Paletted" where
  "setPixel frame palette y x newFrame =
     SetColorIndex newFrame x y (projr (pixelValue frame palette x y))"

definition validFrame :: "Paletted \<Rightarrow> bool" where
  "validFrame frame =
     (0 \<le> Dx (Rect frame) \<and> 0 \<le> Dy (Rect frame) \<and> Palette frame \<noteq> []
      \<and> list_all (\<lambda>y. list_all (\<lambda>x. unat (Pix frame (x, y)) < length (Palette frame))
                    [MinX (Rect frame)..MaxX (Rect frame) - 1])
           [MinY (Rect frame)..MaxY (Rect frame) - 1])"

definition allPixelsOk :: "Paletted \<Rightarrow> color list \<Rightarrow> bool" where
  "allPixelsOk frame palette =
     (\<forall>x y. PointIn x y (Rect frame) \<longrightarrow> \<not> isl (pixelValue frame palette x y))"

definition applied :: "Paletted \<Rightarrow> color list \<Rightarrow> Paletted" where
  "applied frame palette =
     \<lparr>Rect = Rect frame,
      Pix = (\<lambda>(x, y). if PointIn x y (Rect frame) then projr (pixelValue frame palette x y) else 0),
      Palette = palette\<rparr>"

section \<open>Example inputs\<close>

text \<open>
  \<open>blankFrame w h\<close> is \<open>image.NewPaletted(image.Rect(0, 0, w, h), nil)\<close>; \<open>okStorage\<close> is
  a storage layer on which \<open>os.Create\<close> and \<open>binary.Write\<close> succeed. The two example frames
  are the 2x2 frames \<open>[A, A, B, B]\<close> and \<open>[A, B, A, B]\<close> of the specification's scenario,
  with \<open>A = 0\<close> and \<open>B = 1\<close>.
\<close>

definition blankFrame :: "int \<Rightarrow> int \<Rightarrow> Paletted" where
  "blankFrame w h = \<lparr>Rect = imageRect 0 0 w h, Pix = (\<lambda>_. 0), Palette = []\<rparr>"

definition okStorage :: Storage where
  "okStorage = \<lparr>CreateErr = None, HeaderWriteErr = None\<rparr>"

definition exampleFrame0 :: Paletted where
  "exampleFrame0 = SetColorIndex (SetColorIndex (blankFrame 2 2) 0 1 1) 1 1 1"

definition exampleFrame1 :: Paletted where
  "exampleFrame1 = SetColorIndex (SetColorIndex (blankFrame 2 2) 1 0 1) 1 1 1"

definition twoPixelFrame :: Paletted where
  "twoPixelFrame = SetColorIndex (SetColorIndex (blankFrame 2 1) 0 0 5) 1 0 7"

definition twoPixelHeader :: SAGHeader where
  "twoPixelHeader = sagHeader [twoPixelFrame] [10] (replicate 768 0)"

definition black :: color where "black = colorRGBA 0 0 0 255"

definition white :: color where "white = colorRGBA 255 255 255 255"

definition pureRed :: color where "pureRed = colorRGBA 255 0 0 255"

definition whiteFrame :: Paletted where
  "whiteFrame = (blankFrame 1 1)\<lparr>Palette := [white]\<rparr>"

definition bigPalette :: "color list" where
  "bigPalette = replicate 257 black @ [white]"

definition redFrame :: Paletted where
  "redFrame = (blankFrame 1 1)\<lparr>Palette := [pureRed]\<rparr>"

text \<open>
  \<open>offsetFrame\<close> is a 1x1 frame whose bounds are \<open>image.Rect(1, 1, 2, 2)\<close>, as a GIF frame
  that covers a part of the logical screen has, with the index 5 at its only pixel (1, 1).
\<close>

definition offsetFrame :: Paletted where
  "offsetFrame = SetColorIndex ((blankFrame 1 1)\<lparr>Rect := imageRect 1 1 2 2\<rparr>) 1 1 5"

text \<open>
  \<open>wideFrame\<close> is the 2x1 frame \<open>[3, 0]\<close> and \<open>narrowFrame\<close> the 1x1 frame \<open>[3]\<close>.
\<close>

definition wideFrame :: Paletted where
  "wideFrame = SetColorIndex (blankFrame 2 1) 0 0 3"

definition narrowFrame :: Paletted where
  "narrowFrame = SetColorIndex (blankFrame 1 1) 0 0 3"

section \<open>Nearest colour\<close>

lemma uint_shift8: "uint (drop_bit 8 (ucast (v :: uint16) :: uint32)) = uint v div 256"
proof -
  have b: "0 \<le> uint v" "uint v < 2 ^ 32" using uint_bounded [of v] by simp_all
  have t: "take_bit 32 (uint v) = uint v" using b by (intro take_bit_int_eq_self) 
  have "uint (drop_bit 8 (ucast v :: uint32)) = drop_bit 8 (take_bit LENGTH(32) (uint (ucast v :: uint32)))"
    by (rule unsigned_drop_bit_eq)
  also have "uint (ucast v :: uint32) = take_bit LENGTH(32) (uint v)"
    by (rule unsigned_ucast_eq)
  finally show ?thesis
    by (simp add: t drop_bit_eq_div)
qed

lemma channel_bounds:
  "0 \<le> uint (drop_bit 8 (ucast (v :: uint16) :: uint32))
   \<and> uint (drop_bit 8 (ucast (v :: uint16) :: uint32)) \<le> 255"
proof -
  have "0 \<le> uint v" "uint v < 65536" using uint_bounded [of v] by simp_all
  then show ?thesis unfolding uint_shift8 by presburger
qed

lemma sq_bound: "\<bar>a\<bar> \<le> 255 \<Longrightarrow> (a::int) * a \<le> 65025"
proof -
  assume "\<bar>a\<bar> \<le> 255"
  then have "\<bar>a\<bar> * \<bar>a\<bar> \<le> 255 * 255" by (intro mult_mono) auto
  then show ?thesis by (simp add: abs_mult_self_eq)
qed

lemma colorDistanceSquared_bounds:
  "0 \<le> colorDistanceSquared c1 c2 \<and> colorDistanceSquared c1 c2 \<le> 195075"
proof -
  let ?f = "\<lambda>v :: uint16. uint (drop_bit 8 (ucast v :: uint32))"
  have d: "colorDistanceSquared c1 c2 =
      (?f (red c1) - ?f (red c2)) * (?f (red c1) - ?f (red c2))
    + (?f (green c1) - ?f (green c2)) * (?f (green c1) - ?f (green c2))
    + (?f (blue c1) - ?f (blue c2)) * (?f (blue c1) - ?f (blue c2))"
    by (simp add: colorDistanceSquared_def RGBA_def Let_def)
  have b: "\<And>u v. \<bar>?f u - ?f v\<bar> \<le> 255"
  proof -
    fix u v :: uint16
    from channel_bounds [of u] channel_bounds [of v] show "\<bar>?f u - ?f v\<bar> \<le> 255"
      by linarith
  qed
  show ?thesis unfolding d
    using sq_bound [OF b [of "red c1" "red c2"]] sq_bound [OF b [of "green c1" "green c2"]]
      sq_bound [OF b [of "blue c1" "blue c2"]]
      zero_le_square [of "?f (red c1) - ?f (red c2)"]
      zero_le_square [of "?f (green c1) - ?f (green c2)"]
      zero_le_square [of "?f (blue c1) - ?f (blue c2)"]
    by linarith
qed

lemma nearestLoop_spec:
  "nearestLoop t ps i (md, mi) = (d, k) \<Longrightarrow>
     (d = md \<and> k = mi \<and> (\<forall>j < length ps. md \<le> colorDistanceSquared t (ps ! j)))
   \<or> (\<exists>j < length ps. k = i + int j \<and> d = colorDistanceSquared t (ps ! j) \<and> d < md
        \<and> (\<forall>j' < j. d < colorDistanceSquared t (ps ! j'))
        \<and> (\<forall>j' < length ps. d \<le> colorDistanceSquared t (ps ! j')))"
proof (induction ps arbitrary: i md mi)
  case Nil
  then show ?case by simp
next
  case (Cons p ps)
  let ?dp = "colorDistanceSquared t p"
  show ?case
  proof (cases "?dp < md")
    case True
    with Cons.prems have run: "nearestLoop t ps (i + 1) (?dp, i) = (d, k)" by (simp add: Let_def)
    from Cons.IH [OF run] show ?thesis
    proof
      assume a: "d = ?dp \<and> k = i \<and> (\<forall>j<length ps. ?dp \<le> colorDistanceSquared t (ps ! j))"
      have "\<forall>j' < length (p # ps). d \<le> colorDistanceSquared t ((p # ps) ! j')"
        using a by (auto simp: nth_Cons split: nat.splits)
      with a True show ?thesis
        by (intro disjI2 exI [of _ 0]) simp
    next
      assume "\<exists>j<length ps. k = i + 1 + int j \<and> d = colorDistanceSquared t (ps ! j) \<and> d < ?dp
        \<and> (\<forall>j'<j. d < colorDistanceSquared t (ps ! j'))
        \<and> (\<forall>j'<length ps. d \<le> colorDistanceSquared t (ps ! j'))"
      then obtain j where j: "j < length ps" "k = i + 1 + int j" "d = colorDistanceSquared t (ps ! j)"
        "d < ?dp" "\<forall>j'<j. d < colorDistanceSquared t (ps ! j')"
        "\<forall>j'<length ps. d \<le> colorDistanceSquared t (ps ! j')" by blast
      have 1: "\<forall>j'<Suc j. d < colorDistanceSquared t ((p # ps) ! j')"
        using j by (auto simp: nth_Cons split: nat.splits)
      have 2: "\<forall>j'<length (p # ps). d \<le> colorDistanceSquared t ((p # ps) ! j')"
        using j by (auto simp: nth_Cons split: nat.splits)
      show ?thesis
        using j True 1 2 by (intro disjI2 exI [of _ "Suc j"]) simp
    qed
  next
    case False
    with Cons.prems have run: "nearestLoop t ps (i + 1) (md, mi) = (d, k)" by (simp add: Let_def)
    from Cons.IH [OF run] show ?thesis
    proof
      assume a: "d = md \<and> k = mi \<and> (\<forall>j<length ps. md \<le> colorDistanceSquared t (ps ! j))"
      have "\<forall>j < length (p # ps). md \<le> colorDistanceSquared t ((p # ps) ! j)"
        using a False by (auto simp: nth_Cons split: nat.splits)
      with a show ?thesis by blast
    next
      assume "\<exists>j<length ps. k = i + 1 + int j \<and> d = colorDistanceSquared t (ps ! j) \<and> d < md
        \<and> (\<forall>j'<j. d < colorDistanceSquared t (ps ! j'))
        \<and> (\<forall>j'<length ps. d \<le> colorDistanceSquared t (ps ! j'))"
      then obtain j where j: "j < length ps" "k = i + 1 + int j" "d = colorDistanceSquared t (ps ! j)"
        "d < md" "\<forall>j'<j. d < colorDistanceSquared t (ps ! j')"
        "\<forall>j'<length ps. d \<le> colorDistanceSquared t (ps ! j')" by blast
      have 1: "\<forall>j'<Suc j. d < colorDistanceSquared t ((p # ps) ! j')"
        using j False by (auto simp: nth_Cons split: nat.splits)
      have 2: "\<forall>j'<length (p # ps). d \<le> colorDistanceSquared t ((p # ps) ! j')"
        using j False by (auto simp: nth_Cons split: nat.splits)
      show ?thesis
        using j 1 2 by (intro disjI2 exI [of _ "Suc j"]) simp
    qed
  qed
qed

lemma nearest_first_min:
  assumes "palette \<noteq> []"
  shows "\<exists>j < length palette. NearestColorIndex palette t = int j
      \<and> (\<forall>j' < j. colorDistanceSquared t (palette ! j) < colorDistanceSquared t (palette ! j'))
      \<and> (\<forall>j' < length palette. colorDistanceSquared t (palette ! j) \<le> colorDistanceSquared t (palette ! j'))"
proof -
  obtain d k where run: "nearestLoop t palette 0 (maxInt, 0) = (d, k)" by fastforce
  have k: "NearestColorIndex palette t = k" by (simp add: NearestColorIndex_def run)
  have "\<not> maxInt \<le> colorDistanceSquared t (palette ! 0)"
    using colorDistanceSquared_bounds [of t "palette ! 0"] by (simp add: maxInt_def)
  moreover have "0 < length palette" using assms by simp
  ultimately have "\<not> (\<forall>j < length palette. maxInt \<le> colorDistanceSquared t (palette ! j))" by blast
  with nearestLoop_spec [OF run] show ?thesis unfolding k by auto
qed


lemma colorDistanceSquared_eq: "colorDistanceSquared c1 c2 = rgbDistanceSquared c1 c2"
  by (simp add: colorDistanceSquared_def RGBA_def Let_def uint_shift8 rgbDistanceSquared_def
      top8_def power2_eq_square)

text \<open>
  C3. For a non-empty palette, \<open>NearestColorIndex\<close> returns an index of the palette whose
  entry minimises the squared distance to the target, every earlier entry being strictly
  farther (the first minimum wins); the distance is the squared Euclidean distance over
  the top 8 bits of red, green and blue; a single-entry palette gives index 0.
\<close>

theorem NearestColorIndex_first_minimum:
  assumes "palette \<noteq> []"
  shows "0 \<le> NearestColorIndex palette t \<and> NearestColorIndex palette t < int (length palette)
    \<and> (\<forall>j < length palette.
          colorDistanceSquared t (palette ! nat (NearestColorIndex palette t))
            \<le> colorDistanceSquared t (palette ! j))
    \<and> (\<forall>j < nat (NearestColorIndex palette t).
          colorDistanceSquared t (palette ! nat (NearestColorIndex palette t))
            < colorDistanceSquared t (palette ! j))
    \<and> (\<forall>p. colorDistanceSquared t p = rgbDistanceSquared t p)
    \<and> (length palette = 1 \<longrightarrow> NearestColorIndex palette t = 0)"
proof -
  from nearest_first_min [OF assms, of t]
  obtain j where j: "j < length palette" "NearestColorIndex palette t = int j"
    "\<forall>j' < j. colorDistanceSquared t (palette ! j) < colorDistanceSquared t (palette ! j')"
    "\<forall>j' < length palette. colorDistanceSquared t (palette ! j) \<le> colorDistanceSquared t (palette ! j')"
    by blast
  show ?thesis using j by (auto simp: colorDistanceSquared_eq)
qed

theorem NearestColorIndex_first_minimum_witness:
  "[colorRGBA 0 0 0 255, colorRGBA 255 255 255 255] \<noteq> []
   \<and> NearestColorIndex [colorRGBA 0 0 0 255, colorRGBA 255 255 255 255] (colorRGBA 250 250 250 255) = 1
   \<and> NearestColorIndex [colorRGBA 0 0 0 255, colorRGBA 255 255 255 255] (colorRGBA 10 10 10 255) = 0
   \<and> NearestColorIndex [colorRGBA 0 0 0 255, colorRGBA 0 0 0 255] (colorRGBA 10 10 10 255) = 0
   \<and> colorDistanceSquared (colorRGBA 250 250 250 255) (colorRGBA 255 255 255 255) = 75
   \<and> colorDistanceSquared (colorRGBA 250 250 250 255) (colorRGBA 0 0 0 255) = 187500"
  using NearestColorIndex_first_minimum [of "[colorRGBA 0 0 0 255, colorRGBA 255 255 255 255]" "colorRGBA 250 250 250 255"]
  by (simp add: NearestColorIndex_def colorDistanceSquared_eq rgbDistanceSquared_def top8_def colorRGBA_def widen8_def maxInt_def)

section \<open>Loops as folds\<close>

lemma forLoop_foldE: "forLoop i n body s = foldE body [i..n - 1] s"
proof (induction i n body s rule: forLoop.induct)
  case (1 i n body s)
  show ?case
  proof (cases "i < n")
    case True
    then have u: "[i..n - 1] = i # [i + 1..n - 1]" by (simp add: upto_rec1)
    show ?thesis
      using True 1 by (subst forLoop.simps) (simp add: u split: sum.splits)
  next
    case False
    then show ?thesis by (subst forLoop.simps) simp
  qed
qed

lemma forLoopBy8_foldE: "forLoopBy8 x n body s = foldE body (blockStarts x n) s"
proof (induction x n body s rule: forLoopBy8.induct)
  case (1 x n body s)
  show ?case
  proof (cases "x < n")
    case True
    then have u: "blockStarts x n = x # blockStarts (x + 8) n" by (subst blockStarts.simps) simp
    show ?thesis
      using True 1 by (subst forLoopBy8.simps) (simp add: u split: sum.splits)
  next
    case False
    then have "blockStarts x n = []" by (subst blockStarts.simps) simp
    with False show ?thesis by (subst forLoopBy8.simps) simp
  qed
qed

lemma foldE_append:
  "(\<And>x out. x \<in> set xs \<Longrightarrow> body x out = Inr (out @ g x)) \<Longrightarrow>
   foldE body xs out = Inr (out @ concat (map g xs))"
  by (induction xs arbitrary: out) simp_all

lemma foldE_consume:
  "(\<And>x rest st. x \<in> set xs \<Longrightarrow> body x (g x @ rest, st) = Inr (rest, h x st)) \<Longrightarrow>
   foldE body xs (concat (map g xs) @ rest, st) = Inr (rest, fold h xs st)"
  by (induction xs arbitrary: st) simp_all

lemma blockStarts_set: "x' \<in> set (blockStarts x n) \<Longrightarrow> x \<le> x' \<and> x' < n"
proof (induction x n rule: blockStarts.induct)
  case (1 x n)
  show ?case
  proof (cases "x < n")
    case True
    then have u: "blockStarts x n = x # blockStarts (x + 8) n" by (subst blockStarts.simps) simp
    with 1 True show ?thesis by auto
  next
    case False
    then have "blockStarts x n = []" by (subst blockStarts.simps) simp
    with 1 show ?thesis by simp
  qed
qed

lemma blockStarts_cover:
  "x \<le> x' \<Longrightarrow> x' < n \<Longrightarrow> \<exists>s \<in> set (blockStarts x n). s \<le> x' \<and> x' < s + 8"
proof (induction x n rule: blockStarts.induct)
  case (1 x n)
  from 1 have lt: "x < n" by simp
  then have u: "blockStarts x n = x # blockStarts (x + 8) n" by (subst blockStarts.simps) simp
  show ?case
  proof (cases "x' < x + 8")
    case True
    with 1 u show ?thesis by auto
  next
    case False
    with 1 lt have "\<exists>s \<in> set (blockStarts (x + 8) n). s \<le> x' \<and> x' < s + 8" by simp
    with u show ?thesis by auto
  qed
qed

section \<open>The bytes the encoder writes\<close>

lemma maskFrom_ge8: "8 \<le> b \<Longrightarrow> maskFrom frame prevFrame x y width b = 0"
  by (simp add: maskFrom_def)

lemma maskFrom_step:
  "b < 8 \<Longrightarrow> maskFrom frame prevFrame x y width b =
     (if identicalBit frame prevFrame x y width (int b)
      then maskFrom frame prevFrame x y width (Suc b) OR push_bit (7 - b) 1
      else maskFrom frame prevFrame x y width (Suc b))"
  by (simp add: maskFrom_def upt_conv_Cons)

lemma maskFrom_outside:
  "width \<le> x + int b \<Longrightarrow> maskFrom frame prevFrame x y width b = 0"
proof (induction "8 - b" arbitrary: b)
  case 0
  then show ?case by (simp add: maskFrom_ge8)
next
  case (Suc k)
  then have b: "b < 8" by simp
  have "\<not> identicalBit frame prevFrame x y width (int b)"
    using Suc.prems by (simp add: identicalBit_def)
  moreover have "maskFrom frame prevFrame x y width (Suc b) = 0"
    using Suc by (intro Suc.hyps(1)) auto
  ultimately show ?case by (simp add: maskFrom_step [OF b])
qed

lemma upto_pixels_step:
  "b < min 8 (width - x) \<Longrightarrow>
   map f [b..min 8 (width - x) - 1] = f b # map f [b + 1..min 8 (width - x) - 1]"
  by (simp add: upto_rec1)

lemma blockLoop_spec:
  "0 \<le> b \<Longrightarrow>
   blockLoop frame prevFrame x y width b (m, ps) =
     (m OR maskFrom frame prevFrame x y width (nat b),
      ps @ map (\<lambda>b. ColorIndexAt frame (x + b) y) [b..min 8 (width - x) - 1])"
proof (induction frame prevFrame x y width b "(m, ps)" arbitrary: m ps rule: blockLoop.induct)
  case (1 frame prevFrame x y width b m ps)
  show ?case
  proof (cases "b < 8")
    case False
    then have "maskFrom frame prevFrame x y width (nat b) = 0" by (intro maskFrom_ge8) simp
    moreover have "[b..min 8 (width - x) - 1] = []" using False by simp
    ultimately show ?thesis using False by (subst blockLoop.simps) simp
  next
    case True
    show ?thesis
    proof (cases "x + b \<ge> width")
      case True
      then have "maskFrom frame prevFrame x y width (nat b) = 0"
        using 1(2) by (intro maskFrom_outside) simp
      moreover have "[b..min 8 (width - x) - 1] = []" using True by simp
      ultimately show ?thesis using \<open>b < 8\<close> True by (subst blockLoop.simps) simp
    next
      case False
      let ?cur = "ColorIndexAt frame (x + b) y"
      let ?same = "(case prevFrame of None \<Rightarrow> False | Some pf \<Rightarrow> ColorIndexAt pf (x + b) y = ?cur)"
      let ?m' = "(if ?same then m OR push_bit (nat (7 - b)) 1 else m)"
      have step: "blockLoop frame prevFrame x y width b (m, ps)
          = blockLoop frame prevFrame x y width (b + 1) (?m', ps @ [?cur])"
        using True False by (subst blockLoop.simps) (simp add: Let_def)
      have ih: "blockLoop frame prevFrame x y width (b + 1) (?m', ps @ [?cur])
          = (?m' OR maskFrom frame prevFrame x y width (nat (b + 1)),
             (ps @ [?cur]) @ map (\<lambda>b. ColorIndexAt frame (x + b) y) [b + 1..min 8 (width - x) - 1])"
        using True False 1(2) by (intro 1(1)) (auto simp: Let_def)
      have bit: "identicalBit frame prevFrame x y width (int (nat b)) = ?same"
        using True False 1(2) by (simp add: identicalBit_def)
      have nb: "nat b < 8" "Suc (nat b) = nat (b + 1)" "7 - nat b = nat (7 - b)"
        using True 1(2) by auto
      have mask: "m OR maskFrom frame prevFrame x y width (nat b)
          = ?m' OR maskFrom frame prevFrame x y width (nat (b + 1))"
        unfolding maskFrom_step [OF nb(1)] bit nb(2) nb(3)
        by (simp add: ac_simps)
      have pix: "map (\<lambda>b. ColorIndexAt frame (x + b) y) [b..min 8 (width - x) - 1]
          = ?cur # map (\<lambda>b. ColorIndexAt frame (x + b) y) [b + 1..min 8 (width - x) - 1]"
        using True False by (intro upto_pixels_step) simp
      show ?thesis unfolding step ih mask pix by simp
    qed
  qed
qed

lemma blockLoop_closed:
  "blockLoop frame prevFrame x y width 0 (0, []) =
     (identicalMask frame prevFrame x y width, blockPixels frame x y width)"
  using blockLoop_spec [of 0 frame prevFrame x y width 0 "[]"]
  by (simp add: maskFrom_def identicalMask_def blockPixels_def)

lemma writeBlock_closed:
  "writeBlock frame prevFrame width y x out = Inr (out @ blockBytes frame prevFrame width y x)"
  by (simp add: writeBlock_def blockLoop_closed blockBytes_def)

lemma writeRow_closed:
  "writeRow frame prevFrame width y out = Inr (out @ rowBytes frame prevFrame width y)"
  unfolding writeRow_def forLoopBy8_foldE rowBytes_def
  by (rule foldE_append) (rule writeBlock_closed)

lemma writeFrame_closed:
  "0 \<le> i \<Longrightarrow> writeFrame frames width height i out = Inr (out @ frameBytes frames width height (nat i))"
  unfolding writeFrame_def Let_def forLoop_foldE frameBytes_def prevOf_def
  by (rule trans [OF foldE_append]) (auto simp: writeRow_closed nat_diff_distrib)

lemma bit_push_one: "bit (2 ^ m :: byte) n \<longleftrightarrow> n = m \<and> m < 8"
  by (auto simp: bit_exp_iff possible_bit_word)

lemma maskFrom_bit:
  "bit (maskFrom frame prevFrame x y width b) n
     \<longleftrightarrow> (\<exists>k. b \<le> k \<and> k < 8 \<and> n = 7 - k \<and> identicalBit frame prevFrame x y width (int k))"
proof (induction "8 - b" arbitrary: b)
  case 0
  then show ?case by (simp add: maskFrom_ge8)
next
  case (Suc d)
  then have b: "b < 8" by simp
  have ih: "bit (maskFrom frame prevFrame x y width (Suc b)) n
     \<longleftrightarrow> (\<exists>k. Suc b \<le> k \<and> k < 8 \<and> n = 7 - k \<and> identicalBit frame prevFrame x y width (int k))"
    using Suc by (intro Suc.hyps(1)) simp
  have split: "\<And>P. (\<exists>k. b \<le> k \<and> P k) \<longleftrightarrow> P b \<or> (\<exists>k. Suc b \<le> k \<and> P k)"
    by (metis Suc_leD Suc_le_eq le_eq_less_or_eq order_refl)
  show ?case
    unfolding maskFrom_step [OF b] split
    using b by (auto simp: bit_or_iff ih bit_push_one)
qed

lemma identicalMask_bit:
  "bit (identicalMask frame prevFrame x y width) n
     \<longleftrightarrow> n < 8 \<and> identicalBit frame prevFrame x y width (7 - int n)"
proof -
  have m: "identicalMask frame prevFrame x y width = maskFrom frame prevFrame x y width 0"
    by (simp add: identicalMask_def maskFrom_def)
  show ?thesis unfolding m maskFrom_bit
  proof
    assume "\<exists>k. 0 \<le> k \<and> k < 8 \<and> n = 7 - k \<and> identicalBit frame prevFrame x y width (int k)"
    then obtain k where k: "k < 8" "n = 7 - k" "identicalBit frame prevFrame x y width (int k)"
      by blast
    then have "7 - int n = int k" by simp
    with k show "n < 8 \<and> identicalBit frame prevFrame x y width (7 - int n)" by simp
  next
    assume a: "n < 8 \<and> identicalBit frame prevFrame x y width (7 - int n)"
    then have "int (7 - n) = 7 - int n" by simp
    with a show "\<exists>k. 0 \<le> k \<and> k < 8 \<and> n = 7 - k \<and> identicalBit frame prevFrame x y width (int k)"
      by (intro exI [of _ "7 - n"]) auto
  qed
qed

lemma identicalMask_first: "identicalMask frame None x y width = 0"
  by (rule bit_eqI) (simp add: identicalMask_bit identicalBit_def)

section \<open>The header on the wire\<close>

lemma getUint16_putUint16: "getUint16 (ucast (drop_bit 8 v)) (ucast v) = (v :: uint16)"
  unfolding getUint16_def
  by (rule bit_word_eqI) (auto simp: bit_or_iff bit_push_bit_iff bit_ucast_iff bit_drop_bit_eq)

lemma length_headerBytes:
  "length (Signature h) = 3 \<Longrightarrow> length (ColorPalette h) = 768 \<Longrightarrow> length (headerBytes h) = 780"
  by (simp add: headerBytes_def putUint16_def)

lemma readSAGHeader_headerBytes:
  assumes "length (Signature h) = 3" "length (ColorPalette h) = 768"
  shows "readSAGHeader (headerBytes h @ rest) = Inr (h, rest)"
proof -
  obtain s0 s1 s2 where sig: "Signature h = [s0, s1, s2]"
    using assms(1) by (auto simp: length_Suc_conv numeral_3_eq_3)
  have len: "length (headerBytes h) = 780" by (rule length_headerBytes [OF assms])
  have t: "take 780 (headerBytes h @ rest) = headerBytes h" using len by simp
  have d: "drop 780 (headerBytes h @ rest) = rest" using len by simp
  have ne: "headerBytes h @ rest \<noteq> []" using len by auto
  have hb: "headerBytes h = s0 # s1 # s2 # Version h # ucast (drop_bit 8 (Width h)) # ucast (Width h)
      # ucast (drop_bit 8 (Height h)) # ucast (Height h)
      # ucast (drop_bit 8 (FrameCount h)) # ucast (FrameCount h)
      # ucast (drop_bit 8 (FrameDelay h)) # ucast (FrameDelay h) # ColorPalette h"
    by (simp add: headerBytes_def putUint16_def sig)
  have "binaryRead (headerBytes h @ rest) = Inr (h, rest)"
    unfolding binaryRead_def Let_def t d using ne len
    apply (simp only: if_False not_less order_refl)
    apply (simp add: hb getUint16_putUint16 sig del: drop_bit_word_numeral)
    done
  then show ?thesis by (simp add: readSAGHeader_def)
qed

lemma setByte_ok: "0 \<le> k \<Longrightarrow> k < int (length a) \<Longrightarrow> setByte a k v = Inr (a[nat k := v])"
  by (simp add: setByte_def)

lemma storePalette_ok:
  "0 \<le> i \<Longrightarrow> length cp = 768 \<Longrightarrow> i + int (length cs) \<le> 256 \<Longrightarrow>
   \<exists>cp'. storePalette cs i cp = Inr cp' \<and> length cp' = 768"
proof (induction cs arbitrary: i cp)
  case Nil
  then show ?case by simp
next
  case (Cons c cs)
  obtain r g b a where rgba: "RGBA c = (r, g, b, a)" by (cases "RGBA c") auto
  let ?cp1 = "cp[nat (i * 3) := ucast (drop_bit 8 r)]"
  let ?cp2 = "?cp1[nat (i * 3 + 1) := ucast (drop_bit 8 g)]"
  let ?cp3 = "?cp2[nat (i * 3 + 2) := ucast (drop_bit 8 b)]"
  have i: "i < 256" using Cons.prems by simp
  have 1: "setByte cp (i * 3) (ucast (drop_bit 8 r)) = Inr ?cp1"
    using Cons.prems i by (intro setByte_ok) auto
  have 2: "setByte ?cp1 (i * 3 + 1) (ucast (drop_bit 8 g)) = Inr ?cp2"
    using Cons.prems i by (intro setByte_ok) auto
  have 3: "setByte ?cp2 (i * 3 + 2) (ucast (drop_bit 8 b)) = Inr ?cp3"
    using Cons.prems i by (intro setByte_ok) auto
  have "\<exists>cp'. storePalette cs (i + 1) ?cp3 = Inr cp' \<and> length cp' = 768"
    using Cons.prems by (intro Cons.IH) auto
  then show ?case by (simp add: rgba 1 2 3 del: drop_bit_word_numeral)
qed

lemma setByte_fail: "int (length a) \<le> k \<Longrightarrow> setByte a k v = Inl IndexOutOfRange"
  by (simp add: setByte_def)

lemma storePalette_length:
  "storePalette cs i cp = Inr cp' \<Longrightarrow> length cp' = length cp"
proof (induction cs arbitrary: i cp)
  case Nil
  then show ?case by simp
next
  case (Cons c cs)
  obtain r g b a where rgba: "RGBA c = (r, g, b, a)" by (cases "RGBA c") auto
  from Cons.prems obtain cp1 cp2 cp3 where
    s: "setByte cp (i * 3) (ucast (drop_bit 8 r)) = Inr cp1"
       "setByte cp1 (i * 3 + 1) (ucast (drop_bit 8 g)) = Inr cp2"
       "setByte cp2 (i * 3 + 2) (ucast (drop_bit 8 b)) = Inr cp3"
       "storePalette cs (i + 1) cp3 = Inr cp'"
    by (auto simp: rgba split: sum.splits simp del: drop_bit_word_numeral)
  have "length cp1 = length cp" "length cp2 = length cp1" "length cp3 = length cp2"
    using s(1-3) by (auto simp: setByte_def split: if_splits)
  with Cons.IH [OF s(4)] show ?case by simp
qed

lemma storePalette_fail:
  "0 \<le> i \<Longrightarrow> i \<le> 256 \<Longrightarrow> length cp = 768 \<Longrightarrow> 256 < i + int (length cs) \<Longrightarrow>
   storePalette cs i cp = Inl IndexOutOfRange"
proof (induction cs arbitrary: i cp)
  case Nil
  then show ?case by simp
next
  case (Cons c cs)
  obtain r g b a where rgba: "RGBA c = (r, g, b, a)" by (cases "RGBA c") auto
  show ?case
  proof (cases "i < 256")
    case False
    then have "setByte cp (i * 3) (ucast (drop_bit 8 r)) = Inl IndexOutOfRange"
      using Cons.prems by (intro setByte_fail) simp
    then show ?thesis by (simp add: rgba del: drop_bit_word_numeral)
  next
    case True
    let ?cp1 = "cp[nat (i * 3) := ucast (drop_bit 8 r)]"
    let ?cp2 = "?cp1[nat (i * 3 + 1) := ucast (drop_bit 8 g)]"
    let ?cp3 = "?cp2[nat (i * 3 + 2) := ucast (drop_bit 8 b)]"
    have 1: "setByte cp (i * 3) (ucast (drop_bit 8 r)) = Inr ?cp1"
      using Cons.prems True by (intro setByte_ok) auto
    have 2: "setByte ?cp1 (i * 3 + 1) (ucast (drop_bit 8 g)) = Inr ?cp2"
      using Cons.prems True by (intro setByte_ok) auto
    have 3: "setByte ?cp2 (i * 3 + 2) (ucast (drop_bit 8 b)) = Inr ?cp3"
      using Cons.prems True by (intro setByte_ok) auto
    have "storePalette cs (i + 1) ?cp3 = Inl IndexOutOfRange"
      using Cons.prems True by (intro Cons.IH) auto
    then show ?thesis by (simp add: rgba 1 2 3 del: drop_bit_word_numeral)
  qed
qed

section \<open>The file written by the encoder\<close>

lemma map_nat_upto: "map (\<lambda>i. f (nat i)) [0..int n - 1] = map f [0..<n]"
proof (induction n)
  case 0
  then show ?case by simp
next
  case (Suc n)
  have "[0..int (Suc n) - 1] = [0..int n - 1] @ [int n]"
    using upto_rec2 [of 0 "int n"] by simp
  with Suc show ?case by simp
qed

lemma writeFrames_closed:
  "forLoop 0 (int (length frames)) (writeFrame frames width height) out
     = Inr (out @ concat (map (frameBytes frames width height) [0..<length frames]))"
proof -
  have "foldE (writeFrame frames width height) [0..int (length frames) - 1] out
      = Inr (out @ concat (map (\<lambda>i. frameBytes frames width height (nat i)) [0..int (length frames) - 1]))"
    by (rule foldE_append) (simp add: writeFrame_closed)
  then show ?thesis by (simp add: forLoop_foldE map_nat_upto)
qed

lemma writeSAGFile_closed:
  assumes "frames \<noteq> []" "delays \<noteq> []" "storePalette palette 0 (replicate 768 0) = Inr cp"
    "CreateErr fs = None" "HeaderWriteErr fs = None"
  shows "writeSAGFile fs frames delays palette =
     Inr (headerBytes (sagHeader frames delays cp)
          @ concat (map (frameBytes frames (uint (Width (sagHeader frames delays cp)))
                           (uint (Height (sagHeader frames delays cp)))) [0..<length frames]))"
  using assms
  by (simp add: writeSAGFile_def Let_def writeFrames_closed sagHeader_def)

section \<open>The decoder on the encoder's bytes\<close>

lemma length_blockPixels: "length (blockPixels frame x y width) = nat (min 8 (width - x))"
  by (simp add: blockPixels_def)

lemma skipIdenticalByte_Cons: "skipIdenticalByte (m # f) = f"
  by (simp add: skipIdenticalByte_def fileRead_def)

lemma readPixelBlock_full:
  assumes "x < width" "length blk = nat (min 8 (width - x))"
  shows "readPixelBlock (blk @ rest) width x = ((blk, None), rest)"
proof -
  let ?k = "nat (min 8 (width - x))"
  have k: "0 < ?k" using assms(1) by simp
  have buf: "(if x + 8 > width then replicate (nat (width - x)) (0 :: byte) else replicate 8 0)
      = replicate ?k 0"
    by (auto simp: min_def)
  have ne: "blk \<noteq> []" using assms(2) k by auto
  have "fileRead (blk @ rest) (replicate ?k 0) = ((blk, ?k, None), rest)"
    using k ne assms(2) by (simp add: fileRead_def Let_def min_def)
  then show ?thesis unfolding readPixelBlock_def Let_def buf by simp
qed

lemma readBlock_blockBytes:
  assumes "x < width"
  shows "readBlock width y x (blockBytes src prevFrame width y x @ rest, fr)
     = Inr (rest, decodeBlockPure src width y x fr)"
proof -
  have "readPixelBlock (blockPixels src x y width @ rest) width x
      = ((blockPixels src x y width, None), rest)"
    using assms by (intro readPixelBlock_full) (simp_all add: length_blockPixels)
  then show ?thesis
    by (simp add: readBlock_def blockBytes_def skipIdenticalByte_Cons decodeBlockPure_def)
qed

lemma readRow_rowBytes:
  "readRow width y (rowBytes src prevFrame width y @ rest, fr)
     = Inr (rest, decodeRowPure src width y fr)"
  unfolding readRow_def forLoopBy8_foldE rowBytes_def decodeRowPure_def
  by (rule foldE_consume) (auto dest: blockStarts_set intro: readBlock_blockBytes)

lemma readRows_frameBytes:
  "forLoop 0 height (readRow width) (frameBytes frames width height i @ rest, fr)
     = Inr (rest, decodeFramePure (frames ! i) width height fr)"
  unfolding forLoop_foldE frameBytes_def decodeFramePure_def
  by (rule foldE_consume) (rule readRow_rowBytes)

lemma SetColorIndex_Rect [simp]: "Rect (SetColorIndex p x y v) = Rect p"
  by (simp add: SetColorIndex_def)

lemma SetColorIndex_Palette [simp]: "Palette (SetColorIndex p x y v) = Palette p"
  by (simp add: SetColorIndex_def)

lemma applyPixelBlockLoop_Rect [simp]: "Rect (applyPixelBlockLoop fr blk b x y w) = Rect fr"
  by (induction blk arbitrary: fr b) simp_all

lemma applyPixelBlockLoop_Palette [simp]: "Palette (applyPixelBlockLoop fr blk b x y w) = Palette fr"
  by (induction blk arbitrary: fr b) simp_all

lemma applyPixelBlockLoop_Pix:
  "Pix (applyPixelBlockLoop fr blk b x y w) (x', y') =
     (if y' = y \<and> x + b \<le> x' \<and> x' < x + b + int (length blk) \<and> x' < w \<and> PointIn x' y (Rect fr)
      then blk ! nat (x' - x - b) else Pix fr (x', y'))"
proof (induction blk arbitrary: fr b)
  case Nil
  then show ?case by auto
next
  case (Cons v blk)
  let ?fr' = "(if x + b < w then SetColorIndex fr (x + b) y v else fr)"
  have R: "Rect ?fr' = Rect fr" by simp
  have P: "Pix ?fr' (x', y') =
      (if x' = x + b \<and> y' = y \<and> x + b < w \<and> PointIn (x + b) y (Rect fr) then v else Pix fr (x', y'))"
    by (simp add: SetColorIndex_def)
  have n: "x + b < x' \<Longrightarrow> nat (x' - x - b) = Suc (nat (x' - x - (b + 1)))" by simp
  show ?case
  proof (cases "x' = x + b")
    case True
    then show ?thesis
      unfolding applyPixelBlockLoop.simps Cons.IH R P by auto
  next
    case False
    then have "x + b \<le> x' \<longleftrightarrow> x + (b + 1) \<le> x'" by auto
    with False show ?thesis
      unfolding applyPixelBlockLoop.simps Cons.IH R P by (auto simp: n)
  qed
qed

lemma decodeBlockPure_Rect [simp]: "Rect (decodeBlockPure src w y x fr) = Rect fr"
  by (simp add: decodeBlockPure_def applyPixelBlock_def)

lemma decodeBlockPure_Palette [simp]: "Palette (decodeBlockPure src w y x fr) = Palette fr"
  by (simp add: decodeBlockPure_def applyPixelBlock_def)

lemma blockPixels_nth:
  "x \<le> x' \<Longrightarrow> x' < x + 8 \<Longrightarrow> x' < w \<Longrightarrow>
   blockPixels src x y w ! nat (x' - x) = ColorIndexAt src x' y"
  by (simp add: blockPixels_def)

lemma decodeBlockPure_Pix:
  "Pix (decodeBlockPure src w y x fr) (x', y') =
     (if y' = y \<and> x \<le> x' \<and> x' < x + 8 \<and> x' < w \<and> PointIn x' y (Rect fr)
      then ColorIndexAt src x' y else Pix fr (x', y'))"
proof -
  have c: "(x' < x + int (nat (min 8 (w - x))) \<and> x \<le> x') = (x \<le> x' \<and> x' < x + 8 \<and> x' < w)"
    by auto
  show ?thesis
    unfolding decodeBlockPure_def applyPixelBlock_def applyPixelBlockLoop_Pix length_blockPixels
    using c by (auto simp: blockPixels_nth)
qed

lemma fold_blocks_Rect [simp]: "Rect (fold (decodeBlockPure src w y) xs fr) = Rect fr"
  by (induction xs arbitrary: fr) simp_all

lemma fold_blocks_Palette [simp]: "Palette (fold (decodeBlockPure src w y) xs fr) = Palette fr"
  by (induction xs arbitrary: fr) simp_all

lemma fold_blocks_Pix:
  "Pix (fold (decodeBlockPure src w y) xs fr) (x', y') =
     (if y' = y \<and> (\<exists>s \<in> set xs. s \<le> x' \<and> x' < s + 8) \<and> x' < w \<and> PointIn x' y (Rect fr)
      then ColorIndexAt src x' y else Pix fr (x', y'))"
proof (induction xs arbitrary: fr)
  case Nil
  then show ?case by simp
next
  case (Cons s xs)
  show ?case
    unfolding fold_simps Cons.IH decodeBlockPure_Rect decodeBlockPure_Pix
    by auto
qed

lemma blockStarts_covers: "(\<exists>s \<in> set (blockStarts 0 w). s \<le> x' \<and> x' < s + 8) \<and> x' < w \<longleftrightarrow> 0 \<le> x' \<and> x' < w"
  using blockStarts_cover [of 0 x' w] blockStarts_set [of _ 0 w] by fastforce

lemma decodeRowPure_Rect [simp]: "Rect (decodeRowPure src w y fr) = Rect fr"
  by (simp add: decodeRowPure_def)

lemma decodeRowPure_Palette [simp]: "Palette (decodeRowPure src w y fr) = Palette fr"
  by (simp add: decodeRowPure_def)

lemma decodeRowPure_Pix:
  "Pix (decodeRowPure src w y fr) (x', y') =
     (if y' = y \<and> 0 \<le> x' \<and> x' < w \<and> PointIn x' y (Rect fr)
      then ColorIndexAt src x' y else Pix fr (x', y'))"
  unfolding decodeRowPure_def fold_blocks_Pix
  using blockStarts_covers [of w x'] by auto

lemma fold_rows_Rect [simp]: "Rect (fold (decodeRowPure src w) ys fr) = Rect fr"
  by (induction ys arbitrary: fr) simp_all

lemma fold_rows_Palette [simp]: "Palette (fold (decodeRowPure src w) ys fr) = Palette fr"
  by (induction ys arbitrary: fr) simp_all

lemma fold_rows_Pix:
  "Pix (fold (decodeRowPure src w) ys fr) (x', y') =
     (if y' \<in> set ys \<and> 0 \<le> x' \<and> x' < w \<and> PointIn x' y' (Rect fr)
      then ColorIndexAt src x' y' else Pix fr (x', y'))"
proof (induction ys arbitrary: fr)
  case Nil
  then show ?case by simp
next
  case (Cons y ys)
  show ?case
    unfolding fold_simps Cons.IH decodeRowPure_Rect decodeRowPure_Pix
    by auto
qed

lemma decodeFramePure_Rect [simp]: "Rect (decodeFramePure src w h fr) = Rect fr"
  by (simp add: decodeFramePure_def)

lemma decodeFramePure_Palette [simp]: "Palette (decodeFramePure src w h fr) = Palette fr"
  by (simp add: decodeFramePure_def)

lemma decodeFramePure_Pix:
  "Pix (decodeFramePure src w h fr) (x', y') =
     (if 0 \<le> y' \<and> y' < h \<and> 0 \<le> x' \<and> x' < w \<and> PointIn x' y' (Rect fr)
      then ColorIndexAt src x' y' else Pix fr (x', y'))"
  unfolding decodeFramePure_def fold_rows_Pix by auto

lemma readFrame_frameBytes:
  assumes "0 \<le> width" "0 \<le> height"
  shows "readFrame palette width height frameDelay i
      (frameBytes frames width height (nat i) @ rest, frs, ds)
     = Inr (rest, frs @ [decodedFrame palette width height (frames ! nat i)],
            ds @ [frameDelay div 10])"
proof -
  have n: "NewPaletted (imageRect 0 0 width height) palette
      = Inr \<lparr>Rect = imageRect 0 0 width height, Pix = (\<lambda>_. 0), Palette = palette\<rparr>"
    using assms by (simp add: NewPaletted_def imageRect_def Dx_def Dy_def)
  show ?thesis
    by (simp add: readFrame_def n readRows_frameBytes decodedFrame_def)
qed

lemma fold_collect:
  "fold (\<lambda>i (frs, ds). (frs @ [F i], ds @ [d])) xs (frs0, ds0)
     = (frs0 @ map F xs, ds0 @ replicate (length xs) d)"
  by (induction xs arbitrary: frs0 ds0) (simp_all add: replicate_append_same)

lemma readFrames_frames:
  assumes "0 \<le> width" "0 \<le> height"
  shows "forLoop 0 (int n) (readFrame palette width height frameDelay)
      (concat (map (frameBytes frames width height) [0..<n]) @ rest, [], [])
     = Inr (rest, map (\<lambda>i. decodedFrame palette width height (frames ! i)) [0..<n],
            replicate n (frameDelay div 10))"
proof -
  let ?g = "\<lambda>i. frameBytes frames width height (nat i)"
  let ?F = "\<lambda>i. decodedFrame palette width height (frames ! nat i)"
  let ?h = "\<lambda>i (frs, ds). (frs @ [?F i], ds @ [frameDelay div 10])"
  have "foldE (readFrame palette width height frameDelay) [0..int n - 1]
        (concat (map ?g [0..int n - 1]) @ rest, ([], []))
      = Inr (rest, fold ?h [0..int n - 1] ([], []))"
  proof (rule foldE_consume)
    fix x rest and st :: "Paletted list \<times> int list"
    obtain frs ds where st: "st = (frs, ds)" by (cases st)
    show "readFrame palette width height frameDelay x (?g x @ rest, st) = Inr (rest, ?h x st)"
      unfolding st by (simp add: readFrame_frameBytes [OF assms])
  qed
  moreover have "fold ?h [0..int n - 1] ([], [])
      = (map ?F [0..int n - 1], replicate (length [0..int n - 1]) (frameDelay div 10))"
    using fold_collect [of ?F "frameDelay div 10" "[0..int n - 1]" "[]" "[]"] by simp
  ultimately show ?thesis
    using map_nat_upto [of "\<lambda>i. decodedFrame palette width height (frames ! i)" n]
      map_nat_upto [of "frameBytes frames width height" n]
    by (simp add: forLoop_foldE)
qed

lemma uint_frameCount:
  "n < 65536 \<Longrightarrow> uint (of_nat n :: uint16) = int n"
  using uint_word_of_int [of "int n", where 'a = 16] by simp

lemma readSAGFrames_body:
  assumes "length frames < 65536" "FrameCount header = of_int (int (length frames))"
  shows "readSAGFrames
      (concat (map (frameBytes frames (uint (Width header)) (uint (Height header)))
         [0..<length frames])) header
     = Inr (map (decodedFrame (extractPalette header) (uint (Width header)) (uint (Height header)))
              frames,
            replicate (length frames) (uint (FrameDelay header) div 10))"
proof -
  have c: "uint (FrameCount header) = int (length frames)"
    using assms by (simp add: uint_frameCount)
  have m: "map (\<lambda>i. decodedFrame (extractPalette header) (uint (Width header))
                 (uint (Height header)) (frames ! i)) [0..<length frames]
      = map (decodedFrame (extractPalette header) (uint (Width header)) (uint (Height header)))
          frames"
    by (intro nth_equalityI) auto
  show ?thesis
    unfolding readSAGFrames_def Let_def c
    using readFrames_frames [of "uint (Width header)" "uint (Height header)" "length frames"
        "extractPalette header" "uint (FrameDelay header)" frames "[]"]
    by (simp add: m)
qed

lemma sagHeader_lengths:
  "length cp = 768 \<Longrightarrow> length (Signature (sagHeader frames delays cp)) = 3
     \<and> length (ColorPalette (sagHeader frames delays cp)) = 768"
  by (simp add: sagHeader_def)

text \<open>
  The round trip in general: encoding fewer than 65536 frames and decoding the file gives,
  for every input frame, the frame of the truncated width and height that holds the input's
  indices at the points the encoder read, and the delay \<open>(delays[0] * 10 mod 65536) / 10\<close>
  for every frame.
\<close>

lemma roundtrip_general:
  assumes "frames \<noteq> []" "delays \<noteq> []" "length palette \<le> 256"
    "CreateErr fs = None" "HeaderWriteErr fs = None" "length frames < 65536"
  shows "\<exists>out cp. length cp = 768 \<and> writeSAGFile fs frames delays palette = Inr out
      \<and> readSAGFile (Inr out)
        = Inr (map (decodedFrame (extractPalette (sagHeader frames delays cp))
                      (Dx (Rect (frames ! 0)) mod 65536) (Dy (Rect (frames ! 0)) mod 65536)) frames,
               replicate (length frames) (((delays ! 0 * 10) mod 65536) div 10))"
proof -
  from storePalette_ok [of 0 "replicate 768 0" palette] assms(3)
  obtain cp where cp: "storePalette palette 0 (replicate 768 0) = Inr cp" "length cp = 768"
    by auto
  let ?h = "sagHeader frames delays cp"
  let ?body = "concat (map (frameBytes frames (uint (Width ?h)) (uint (Height ?h)))
      [0..<length frames])"
  have w: "writeSAGFile fs frames delays palette = Inr (headerBytes ?h @ ?body)"
    by (rule writeSAGFile_closed [OF assms(1,2) cp(1) assms(4,5)])
  have hd: "readSAGHeader (headerBytes ?h @ ?body) = Inr (?h, ?body)"
    using sagHeader_lengths [OF cp(2)] by (intro readSAGHeader_headerBytes) auto
  have fr: "readSAGFrames ?body ?h
      = Inr (map (decodedFrame (extractPalette ?h) (uint (Width ?h)) (uint (Height ?h))) frames,
             replicate (length frames) (uint (FrameDelay ?h) div 10))"
    by (rule readSAGFrames_body [OF assms(6)]) (simp add: sagHeader_def)
  have f: "uint (Width ?h) = Dx (Rect (frames ! 0)) mod 65536"
    "uint (Height ?h) = Dy (Rect (frames ! 0)) mod 65536"
    "uint (FrameDelay ?h) = (delays ! 0 * 10) mod 65536"
    using uint_word_of_int [of "Dx (Rect (frames ! 0))", where 'a = 16]
      uint_word_of_int [of "Dy (Rect (frames ! 0))", where 'a = 16]
      uint_word_of_int [of "delays ! 0 * 10", where 'a = 16]
    by (simp_all add: sagHeader_def)
  have "readSAGFile (Inr (headerBytes ?h @ ?body))
      = Inr (map (decodedFrame (extractPalette ?h) (uint (Width ?h)) (uint (Height ?h))) frames,
             replicate (length frames) (uint (FrameDelay ?h) div 10))"
    by (simp add: readSAGFile_def hd fr)
  with w cp(2) show ?thesis unfolding f by blast
qed

section \<open>Header fields and failures of the encoder\<close>

lemma storePalette_Nil: "storePalette [] 0 (replicate 768 0) = Inr (replicate 768 0)"
  by simp

text \<open>
  C10. \<open>writeSAGFile\<close> rejects no dimension, frame count or delay: whenever the frame and
  delay lists are not empty, the palette has at most 256 entries and the file can be
  created and the header written, it returns a file whose header parses, and the stored
  \<open>Width\<close>, \<open>Height\<close> and \<open>FrameCount\<close> are the width and height of the first frame and the
  number of frames modulo \<open>2^16\<close>, and the stored \<open>FrameDelay\<close> is \<open>delays[0] * 10\<close> modulo
  \<open>2^16\<close>. (Go multiplies in 64 bits first; \<open>2^16\<close> divides \<open>2^64\<close>, so that wrap-around
  does not change the remainder.)
\<close>

theorem writeSAGFile_header_fields:
  assumes "frames \<noteq> []" "delays \<noteq> []" "length palette \<le> 256"
    "CreateErr fs = None" "HeaderWriteErr fs = None"
  shows "\<exists>out h body. writeSAGFile fs frames delays palette = Inr out
      \<and> readSAGHeader out = Inr (h, body)
      \<and> uint (Width h) = Dx (Rect (frames ! 0)) mod 2 ^ 16
      \<and> uint (Height h) = Dy (Rect (frames ! 0)) mod 2 ^ 16
      \<and> uint (FrameCount h) = int (length frames) mod 2 ^ 16
      \<and> uint (FrameDelay h) = (delays ! 0 * 10) mod 2 ^ 16"
proof -
  from storePalette_ok [of 0 "replicate 768 0" palette] assms(3)
  obtain cp where cp: "storePalette palette 0 (replicate 768 0) = Inr cp" "length cp = 768"
    by auto
  let ?h = "sagHeader frames delays cp"
  let ?body = "concat (map (frameBytes frames (uint (Width ?h)) (uint (Height ?h)))
      [0..<length frames])"
  have w: "writeSAGFile fs frames delays palette = Inr (headerBytes ?h @ ?body)"
    by (rule writeSAGFile_closed [OF assms(1,2) cp(1) assms(4,5)])
  have hd: "readSAGHeader (headerBytes ?h @ ?body) = Inr (?h, ?body)"
    using sagHeader_lengths [OF cp(2)] by (intro readSAGHeader_headerBytes) auto
  have f: "uint (Width ?h) = Dx (Rect (frames ! 0)) mod 2 ^ 16"
    "uint (Height ?h) = Dy (Rect (frames ! 0)) mod 2 ^ 16"
    "uint (FrameCount ?h) = int (length frames) mod 2 ^ 16"
    "uint (FrameDelay ?h) = (delays ! 0 * 10) mod 2 ^ 16"
    using uint_word_of_int [of "Dx (Rect (frames ! 0))", where 'a = 16]
      uint_word_of_int [of "Dy (Rect (frames ! 0))", where 'a = 16]
      uint_word_of_int [of "int (length frames)", where 'a = 16]
      uint_word_of_int [of "delays ! 0 * 10", where 'a = 16]
    by (simp_all add: sagHeader_def)
  from w hd f show ?thesis by blast
qed

text \<open>
  A frame 70000 pixels wide and a first delay of 6554 hundredths of a second are accepted:
  the header stores the width 4464 and the delay 4.
\<close>

theorem writeSAGFile_header_fields_witness:
  "[blankFrame 70000 3] \<noteq> [] \<and> [6554 :: int] \<noteq> [] \<and> length ([] :: color list) \<le> 256
   \<and> CreateErr okStorage = None \<and> HeaderWriteErr okStorage = None
   \<and> (\<exists>out h body. writeSAGFile okStorage [blankFrame 70000 3] [6554] [] = Inr out
        \<and> readSAGHeader out = Inr (h, body)
        \<and> uint (Width h) = 4464 \<and> uint (Height h) = 3
        \<and> uint (FrameCount h) = 1 \<and> uint (FrameDelay h) = 4)"
  using writeSAGFile_header_fields [of "[blankFrame 70000 3]" "[6554]" "[]" okStorage]
  by (simp add: okStorage_def blankFrame_def imageRect_def Dx_def Dy_def)

text \<open>
  C8 (as amended). \<open>writeSAGFile\<close> validates nothing. It fails exactly when the frame list
  is empty or the delay list is empty (index out of range), when the palette has more
  than 256 entries (index out of range on the 768-byte array, before the file is
  created), or when creating the file or writing the header fails. Frames of different
  dimensions, and widths, heights and frame counts beyond 16 bits, are written without
  an error.
\<close>

theorem writeSAGFile_fails_iff:
  "isl (writeSAGFile fs frames delays palette) \<longleftrightarrow>
     frames = [] \<or> delays = [] \<or> 256 < length palette
     \<or> CreateErr fs \<noteq> None \<or> HeaderWriteErr fs \<noteq> None"
proof (cases "frames = [] \<or> delays = []")
  case True
  then show ?thesis by (auto simp: writeSAGFile_def)
next
  case False
  then have ne: "frames \<noteq> []" "delays \<noteq> []" by auto
  show ?thesis
  proof (cases "256 < length palette")
    case True
    then have "storePalette palette 0 (replicate 768 0) = Inl IndexOutOfRange"
      by (intro storePalette_fail) auto
    with ne True show ?thesis by (simp add: writeSAGFile_def Let_def)
  next
    case small: False
    from storePalette_ok [of 0 "replicate 768 0" palette] small
    obtain cp where cp: "storePalette palette 0 (replicate 768 0) = Inr cp" by auto
    show ?thesis
    proof (cases "CreateErr fs = None \<and> HeaderWriteErr fs = None")
      case True
      with writeSAGFile_closed [OF ne cp] ne small show ?thesis by auto
    next
      case False
      with ne small cp show ?thesis
        by (auto simp: writeSAGFile_def Let_def split: option.splits)
    qed
  qed
qed

text \<open>
  A palette of 257 colours makes the encoder fail; a palette of one colour and two frames
  do not.
\<close>

theorem writeSAGFile_fails_iff_witness:
  "isl (writeSAGFile okStorage [blankFrame 1 1] [10] (replicate 257 (colorRGBA 0 0 0 255)))
   \<and> 256 < length (replicate 257 (colorRGBA 0 0 0 255))
   \<and> \<not> isl (writeSAGFile okStorage [blankFrame 1 1, blankFrame 1 1] [10] [colorRGBA 0 0 0 255])"
  using writeSAGFile_fails_iff [of okStorage "[blankFrame 1 1]" "[10]" "replicate 257 (colorRGBA 0 0 0 255)"]
    writeSAGFile_fails_iff [of okStorage "[blankFrame 1 1, blankFrame 1 1]" "[10]" "[colorRGBA 0 0 0 255]"]
  by (simp add: okStorage_def)

text \<open>
  C8 as stated fails: two frames of different dimensions (1x1 and 2x2) are encoded without
  an error.
\<close>

theorem writeSAGFile_inconsistent_counterexample:
  "Dx (Rect (blankFrame 1 1)) \<noteq> Dx (Rect (blankFrame 2 2))
   \<and> \<not> isl (writeSAGFile okStorage [blankFrame 1 1, blankFrame 2 2] [10] [])"
proof -
  have "writeSAGFile okStorage [blankFrame 1 1, blankFrame 2 2] [10] [] =
     Inr (headerBytes (sagHeader [blankFrame 1 1, blankFrame 2 2] [10] (replicate 768 0))
          @ concat (map (frameBytes [blankFrame 1 1, blankFrame 2 2]
              (uint (Width (sagHeader [blankFrame 1 1, blankFrame 2 2] [10] (replicate 768 0))))
              (uint (Height (sagHeader [blankFrame 1 1, blankFrame 2 2] [10] (replicate 768 0)))))
              [0..<length [blankFrame 1 1, blankFrame 2 2]]))"
    by (rule writeSAGFile_closed) (simp_all add: okStorage_def)
  then show ?thesis by (simp add: blankFrame_def imageRect_def Dx_def)
qed

section \<open>Block layout\<close>

text \<open>
  The bits of a mask byte built as the encoder builds it.
\<close>

lemma foldr_mask_bit:
  "bit (foldr (\<lambda>b m. if P b then m OR push_bit (7 - b) 1 else m) [b..<8] (0 :: byte)) n
     \<longleftrightarrow> (\<exists>k. b \<le> k \<and> k < 8 \<and> n = 7 - k \<and> P k)"
proof (induction "8 - b" arbitrary: b)
  case 0
  then show ?case by simp
next
  case (Suc d)
  then have b: "b < 8" by simp
  have ih: "bit (foldr (\<lambda>b m. if P b then m OR push_bit (7 - b) 1 else m) [Suc b..<8] (0 :: byte)) n
     \<longleftrightarrow> (\<exists>k. Suc b \<le> k \<and> k < 8 \<and> n = 7 - k \<and> P k)"
    using Suc by (intro Suc.hyps(1)) simp
  have split: "\<And>Q. (\<exists>k. b \<le> k \<and> Q k) \<longleftrightarrow> Q b \<or> (\<exists>k. Suc b \<le> k \<and> Q k)"
    by (metis Suc_leD Suc_le_eq le_eq_less_or_eq order_refl)
  show ?case
    unfolding upt_conv_Cons [OF b] split
    using b by (auto simp: bit_or_iff ih bit_push_one)
qed

lemma gridMask_bit:
  "bit (gridMask frame prevFrame x y width) n
     \<longleftrightarrow> n < 8 \<and> gridBit frame prevFrame x y width (7 - int n)"
  unfolding gridMask_def foldr_mask_bit
proof
  assume "\<exists>k. 0 \<le> k \<and> k < 8 \<and> n = 7 - k \<and> gridBit frame prevFrame x y width (int k)"
  then obtain k where k: "k < 8" "n = 7 - k" "gridBit frame prevFrame x y width (int k)"
    by blast
  then have "7 - int n = int k" by simp
  with k show "n < 8 \<and> gridBit frame prevFrame x y width (7 - int n)" by simp
next
  assume a: "n < 8 \<and> gridBit frame prevFrame x y width (7 - int n)"
  then have "int (7 - n) = 7 - int n" by simp
  with a show "\<exists>k. 0 \<le> k \<and> k < 8 \<and> n = 7 - k \<and> gridBit frame prevFrame x y width (int k)"
    by (intro exI [of _ "7 - n"]) auto
qed

lemma indexGrid_nth:
  assumes "Rect f = \<lparr>MinX = 0, MinY = 0, MaxX = w, MaxY = h\<rparr>"
    "0 \<le> x" "x < w" "0 \<le> y" "y < h"
  shows "indexGrid f ! nat y ! nat x = ColorIndexAt f x y"
  using assms by (simp add: indexGrid_def nth_upto)

lemma indexGrid_size:
  assumes "Rect f = \<lparr>MinX = 0, MinY = 0, MaxX = w, MaxY = h\<rparr>"
  shows "length (indexGrid f) = nat h" "\<forall>row \<in> set (indexGrid f). length row = nat w"
  using assms by (auto simp: indexGrid_def)

lemma gridBlock_blockPixels:
  assumes "Rect f = \<lparr>MinX = 0, MinY = 0, MaxX = w, MaxY = h\<rparr>" "0 \<le> x" "0 \<le> y" "y < h"
  shows "gridBlock f x y w = blockPixels f x y w"
  unfolding gridBlock_def blockPixels_def
  using assms by (intro map_cong refl indexGrid_nth [where w = w and h = h]) auto

lemma gridBit_identicalBit:
  assumes "Rect f = \<lparr>MinX = 0, MinY = 0, MaxX = w, MaxY = h\<rparr>"
    "\<And>pf. p = Some pf \<Longrightarrow> Rect pf = \<lparr>MinX = 0, MinY = 0, MaxX = w, MaxY = h\<rparr>"
    "0 \<le> x" "0 \<le> y" "y < h"
  shows "gridBit f p x y w b = identicalBit f p x y w b"
proof (cases "0 \<le> b \<and> x + b < w")
  case True
  then have c: "0 \<le> x + b" "x + b < w" using assms(3) by simp_all
  have 1: "indexGrid f ! nat y ! nat (x + b) = ColorIndexAt f (x + b) y"
    by (rule indexGrid_nth [OF assms(1) c assms(4,5)])
  show ?thesis
  proof (cases p)
    case None
    then show ?thesis by (simp add: gridBit_def identicalBit_def)
  next
    case (Some pf)
    have 2: "indexGrid pf ! nat y ! nat (x + b) = ColorIndexAt pf (x + b) y"
      by (rule indexGrid_nth [OF assms(2) c assms(4,5)]) (rule Some)
    show ?thesis
      unfolding gridBit_def identicalBit_def Some option.case 1 2 ..
  qed
next
  case False
  then show ?thesis by (auto simp: gridBit_def identicalBit_def)
qed

lemma gridMask_identicalMask:
  assumes "Rect f = \<lparr>MinX = 0, MinY = 0, MaxX = w, MaxY = h\<rparr>"
    "\<And>pf. p = Some pf \<Longrightarrow> Rect pf = \<lparr>MinX = 0, MinY = 0, MaxX = w, MaxY = h\<rparr>"
    "0 \<le> x" "0 \<le> y" "y < h"
  shows "gridMask f p x y w = identicalMask f p x y w"
  by (simp add: gridMask_def identicalMask_def gridBit_identicalBit [OF assms])

lemma frameBytes_grid:
  assumes "\<forall>f \<in> set frames. Rect f = \<lparr>MinX = 0, MinY = 0, MaxX = w, MaxY = h\<rparr>"
    "i < length frames"
  shows "frameBytes frames w h i =
     concat (map (\<lambda>y. concat (map (\<lambda>x.
         gridMask (frames ! i) (prevOf frames i) x y w # gridBlock (frames ! i) x y w)
       (blockStarts 0 w))) [0..h - 1])"
proof -
  have r: "Rect (frames ! i) = \<lparr>MinX = 0, MinY = 0, MaxX = w, MaxY = h\<rparr>"
    using assms by simp
  have p: "\<And>pf. prevOf frames i = Some pf \<Longrightarrow> Rect pf = \<lparr>MinX = 0, MinY = 0, MaxX = w, MaxY = h\<rparr>"
    using assms by (auto simp: prevOf_def split: if_splits)
  have "\<And>x y. x \<in> set (blockStarts 0 w) \<Longrightarrow> y \<in> set [0..h - 1] \<Longrightarrow>
      blockBytes (frames ! i) (prevOf frames i) w y x
        = gridMask (frames ! i) (prevOf frames i) x y w # gridBlock (frames ! i) x y w"
    using blockStarts_set [of _ 0 w]
    by (simp add: blockBytes_def gridMask_identicalMask [OF r p] gridBlock_blockPixels [OF r])
  then show ?thesis
    unfolding frameBytes_def rowBytes_def
    by (intro arg_cong [where f = concat] map_cong refl) auto
qed

lemma blockStarts_small: "0 < w \<Longrightarrow> w \<le> 8 \<Longrightarrow> blockStarts 0 w = [0]"
  by (subst blockStarts.simps, simp, subst blockStarts.simps, simp)

lemma identicalMask_eval:
  "identicalMask frame prevFrame x y width =
     (if identicalBit frame prevFrame x y width 0 then 128 else 0)
     OR (if identicalBit frame prevFrame x y width 1 then 64 else 0)
     OR (if identicalBit frame prevFrame x y width 2 then 32 else 0)
     OR (if identicalBit frame prevFrame x y width 3 then 16 else 0)
     OR (if identicalBit frame prevFrame x y width 4 then 8 else 0)
     OR (if identicalBit frame prevFrame x y width 5 then 4 else 0)
     OR (if identicalBit frame prevFrame x y width 6 then 2 else 0)
     OR (if identicalBit frame prevFrame x y width 7 then 1 else 0)"
proof -
  have l: "[0..<8] = [0, 1, 2, 3, 4, 5, 6, 7]" by (simp add: upt_rec)
  have r: "\<And>c m k. (if c then m OR k else m) = (if c then k else (0::byte)) OR m"
    by (simp add: or.commute)
  show ?thesis
    unfolding identicalMask_def l foldr.simps comp_def r
    by (simp add: or.assoc)
qed

lemma gridMask_eval:
  "gridMask frame prevFrame x y width =
     (if gridBit frame prevFrame x y width 0 then 128 else 0)
     OR (if gridBit frame prevFrame x y width 1 then 64 else 0)
     OR (if gridBit frame prevFrame x y width 2 then 32 else 0)
     OR (if gridBit frame prevFrame x y width 3 then 16 else 0)
     OR (if gridBit frame prevFrame x y width 4 then 8 else 0)
     OR (if gridBit frame prevFrame x y width 5 then 4 else 0)
     OR (if gridBit frame prevFrame x y width 6 then 2 else 0)
     OR (if gridBit frame prevFrame x y width 7 then 1 else 0)"
proof -
  have l: "[0..<8] = [0, 1, 2, 3, 4, 5, 6, 7]" by (simp add: upt_rec)
  have r: "\<And>c m k. (if c then m OR k else m) = (if c then k else (0::byte)) OR m"
    by (simp add: or.commute)
  show ?thesis
    unfolding gridMask_def l foldr.simps comp_def r
    by (simp add: or.assoc)
qed

lemma example_grids:
  "indexGrid exampleFrame0 = [[0, 0], [1, 1]]" "indexGrid exampleFrame1 = [[0, 1], [0, 1]]"
  "Rect exampleFrame0 = \<lparr>MinX = 0, MinY = 0, MaxX = 2, MaxY = 2\<rparr>"
  "Rect exampleFrame1 = \<lparr>MinX = 0, MinY = 0, MaxX = 2, MaxY = 2\<rparr>"
  by (simp_all add: indexGrid_def exampleFrame0_def exampleFrame1_def blankFrame_def imageRect_def
      ColorIndexAt_def SetColorIndex_def PointIn_def upto_rec1)



lemma offsetFrame_pixels:
  "Rect offsetFrame = \<lparr>MinX = 1, MinY = 1, MaxX = 2, MaxY = 2\<rparr>"
  "indexGrid offsetFrame = [[5]]" "ColorIndexAt offsetFrame 0 0 = 0"
proof -
  show R: "Rect offsetFrame = \<lparr>MinX = 1, MinY = 1, MaxX = 2, MaxY = 2\<rparr>"
    by (simp add: offsetFrame_def blankFrame_def imageRect_def)
  show "indexGrid offsetFrame = [[5]]"
    by (simp add: indexGrid_def R upto_rec1 ColorIndexAt_def PointIn_def)
      (simp add: offsetFrame_def blankFrame_def imageRect_def SetColorIndex_def PointIn_def)
  show "ColorIndexAt offsetFrame 0 0 = 0"
    by (simp add: ColorIndexAt_def R PointIn_def)
qed

lemma mixed_pixels:
  "Rect wideFrame = \<lparr>MinX = 0, MinY = 0, MaxX = 2, MaxY = 1\<rparr>"
  "Rect narrowFrame = \<lparr>MinX = 0, MinY = 0, MaxX = 1, MaxY = 1\<rparr>"
  "ColorIndexAt wideFrame 0 0 = 3" "ColorIndexAt wideFrame 1 0 = 0"
  "ColorIndexAt narrowFrame 0 0 = 3" "ColorIndexAt narrowFrame 1 0 = 0"
  by (simp_all add: wideFrame_def narrowFrame_def blankFrame_def imageRect_def
      ColorIndexAt_def SetColorIndex_def PointIn_def)

lemma mixed_grids: "indexGrid wideFrame = [[3, 0]]" "indexGrid narrowFrame = [[3]]"
  by (simp_all add: indexGrid_def mixed_pixels upto_rec1)


section \<open>Header parse\<close>

text \<open>
  C7 (as amended). The header parse fails exactly when fewer than 780 bytes are available,
  and then \<open>readSAGFile\<close> fails too. The signature is not checked: any 780 bytes parse, the
  first three becoming the \<open>Signature\<close> field, and the rest of the file is left for the
  frames.
\<close>

theorem readSAGHeader_fails_iff:
  "(isl (readSAGHeader f) \<longleftrightarrow> length f < 780)
   \<and> (length f < 780 \<longrightarrow> isl (readSAGFile (Inr f)))
   \<and> (780 \<le> length f \<longrightarrow>
        (\<exists>h. readSAGHeader f = Inr (h, drop 780 f) \<and> Signature h = take 3 f))"
proof -
  have 1: "isl (readSAGHeader f) \<longleftrightarrow> length f < 780"
    by (auto simp: readSAGHeader_def binaryRead_def Let_def)
  have 2: "length f < 780 \<longrightarrow> isl (readSAGFile (Inr f))"
    using 1 by (auto simp: readSAGFile_def split: sum.splits)
  have 3: "780 \<le> length f \<longrightarrow>
        (\<exists>h. readSAGHeader f = Inr (h, drop 780 f) \<and> Signature h = take 3 f)"
    by (auto simp: readSAGHeader_def binaryRead_def Let_def take_take min_def)
  from 1 2 3 show ?thesis by blast
qed

text \<open>
  779 bytes do not parse; 780 bytes that start with \<open>"SAG"\<close> do.
\<close>

theorem readSAGHeader_fails_iff_witness:
  "length (replicate 779 (0 :: byte)) < 780
   \<and> isl (readSAGHeader (replicate 779 0))
   \<and> isl (readSAGFile (Inr (replicate 779 0)))
   \<and> \<not> isl (readSAGHeader ([0x53, 0x41, 0x47] @ replicate 777 0))"
  using readSAGHeader_fails_iff [of "replicate 779 0"]
    readSAGHeader_fails_iff [of "[0x53, 0x41, 0x47] @ replicate 777 0"]
  by simp

text \<open>
  C7 as stated fails: 780 zero bytes do not start with \<open>"SAG"\<close>, and the header parses;
  \<open>readSAGFile\<close> returns an animation of no frames.
\<close>

theorem readSAGHeader_signature_counterexample:
  "take 3 (replicate 780 (0 :: byte)) \<noteq> [0x53, 0x41, 0x47]
   \<and> \<not> isl (readSAGHeader (replicate 780 0))
   \<and> readSAGFile (Inr (replicate 780 0)) = Inr ([], [])"
proof -
  have t: "take 3 (replicate 780 (0 :: byte)) \<noteq> [0x53, 0x41, 0x47]"
    by (simp add: numeral_3_eq_3)
  have g: "getUint16 0 0 = 0" by (simp add: getUint16_def)
  have h: "readSAGHeader (replicate 780 0) =
      Inr (\<lparr>Signature = replicate 3 0, Version = 0, Width = 0, Height = 0, FrameCount = 0,
            FrameDelay = 0, ColorPalette = replicate 768 0\<rparr>, [])"
    by (simp add: readSAGHeader_def binaryRead_def Let_def g)
  have f: "readSAGFrames [] \<lparr>Signature = replicate 3 0, Version = 0, Width = 0, Height = 0,
      FrameCount = 0, FrameDelay = 0, ColorPalette = replicate 768 0\<rparr> = Inr ([], [])"
    by (simp add: readSAGFrames_def Let_def forLoop.simps)
  show ?thesis using t by (simp add: readSAGFile_def h f)
qed

section \<open>Round trip\<close>

lemma decodedFrame_Rect:
  "0 \<le> w \<Longrightarrow> 0 \<le> h \<Longrightarrow>
   Rect (decodedFrame pal w h src) = \<lparr>MinX = 0, MinY = 0, MaxX = w, MaxY = h\<rparr>"
  by (simp add: decodedFrame_def imageRect_def)

lemma decodedFrame_ColorIndexAt:
  "0 \<le> w \<Longrightarrow> 0 \<le> h \<Longrightarrow>
   ColorIndexAt (decodedFrame pal w h src) x y =
     (if 0 \<le> x \<and> x < w \<and> 0 \<le> y \<and> y < h then ColorIndexAt src x y else 0)"
  by (auto simp: ColorIndexAt_def decodedFrame_def decodeFramePure_Pix imageRect_def PointIn_def)

lemma indexGrid_decodedFrame:
  assumes "0 \<le> w" "0 \<le> h" "Rect src = \<lparr>MinX = 0, MinY = 0, MaxX = w, MaxY = h\<rparr>"
  shows "indexGrid (decodedFrame pal w h src) = indexGrid src"
  unfolding indexGrid_def decodedFrame_Rect [OF assms(1,2)] assms(3)
  by (auto simp: decodedFrame_ColorIndexAt [OF assms(1,2)])

lemma delay_roundtrip: "0 \<le> d \<Longrightarrow> d \<le> 6553 \<Longrightarrow> ((d * 10) mod 65536) div 10 = (d :: int)"
  by simp

text \<open>
  C1 (as amended). For a non-empty list of fewer than 65536 frames that all have the
  bounds \<open>(0, 0)-(w, h)\<close> with \<open>w, h < 65536\<close>, a non-empty delay list whose first entry is
  between 0 and 6553, and a palette of at most 256 colours, when the file can be created
  and the header written: \<open>writeSAGFile\<close> returns a file, \<open>readSAGFile\<close> decodes it, the
  decoded frames have the index grids and bounds of the input frames, and the decoded
  delay list has one entry per frame, each equal to \<open>delays[0]\<close>.
\<close>

theorem roundtrip_indices:
  assumes "frames \<noteq> []" "length frames < 65536"
    "\<forall>f \<in> set frames. Rect f = \<lparr>MinX = 0, MinY = 0, MaxX = w, MaxY = h\<rparr>"
    "0 \<le> w" "w < 65536" "0 \<le> h" "h < 65536"
    "delays \<noteq> []" "0 \<le> delays ! 0" "delays ! 0 \<le> 6553"
    "length palette \<le> 256" "CreateErr fs = None" "HeaderWriteErr fs = None"
  shows "\<exists>out decoded. writeSAGFile fs frames delays palette = Inr out
      \<and> readSAGFile (Inr out) = Inr (decoded, replicate (length frames) (delays ! 0))
      \<and> map indexGrid decoded = map indexGrid frames
      \<and> map Rect decoded = map Rect frames"
proof -
  from roundtrip_general [OF assms(1,8,11,12,13,2)]
  obtain out cp where o: "writeSAGFile fs frames delays palette = Inr out"
    "readSAGFile (Inr out)
        = Inr (map (decodedFrame (extractPalette (sagHeader frames delays cp))
                      (Dx (Rect (frames ! 0)) mod 65536) (Dy (Rect (frames ! 0)) mod 65536)) frames,
               replicate (length frames) (((delays ! 0 * 10) mod 65536) div 10))"
    by blast
  have "frames ! 0 \<in> set frames" using assms(1) by simp
  then have r0: "Rect (frames ! 0) = \<lparr>MinX = 0, MinY = 0, MaxX = w, MaxY = h\<rparr>"
    using assms(3) by blast
  have wh: "Dx (Rect (frames ! 0)) mod 65536 = w" "Dy (Rect (frames ! 0)) mod 65536 = h"
    using assms(4-7) by (simp_all add: r0 Dx_def Dy_def)
  let ?dec = "map (decodedFrame (extractPalette (sagHeader frames delays cp)) w h) frames"
  have g: "map indexGrid ?dec = map indexGrid frames"
    using assms(3,4,6) by (simp add: indexGrid_decodedFrame)
  have r: "map Rect ?dec = map Rect frames"
    using assms(3,4,6) by (simp add: decodedFrame_Rect)
  have "readSAGFile (Inr out) = Inr (?dec, replicate (length frames) (delays ! 0))"
    using o(2) unfolding wh delay_roundtrip [OF assms(9,10)] .
  with o(1) g r show ?thesis by blast
qed

text \<open>
  The specification's scenario: two 2x2 frames with the delays 10 and 20 decode to the
  same index grids with the delays 10 and 10.
\<close>

theorem roundtrip_indices_witness:
  "[exampleFrame0, exampleFrame1] \<noteq> [] \<and> length [exampleFrame0, exampleFrame1] < 65536
   \<and> Rect exampleFrame0 = \<lparr>MinX = 0, MinY = 0, MaxX = 2, MaxY = 2\<rparr>
   \<and> Rect exampleFrame1 = \<lparr>MinX = 0, MinY = 0, MaxX = 2, MaxY = 2\<rparr>
   \<and> [10, 20 :: int] \<noteq> [] \<and> CreateErr okStorage = None \<and> HeaderWriteErr okStorage = None
   \<and> (\<exists>out decoded. writeSAGFile okStorage [exampleFrame0, exampleFrame1] [10, 20] [] = Inr out
        \<and> readSAGFile (Inr out) = Inr (decoded, [10, 10])
        \<and> map indexGrid decoded = [[[0, 0], [1, 1]], [[0, 1], [0, 1]]])"
proof -
  have "\<exists>out decoded. writeSAGFile okStorage [exampleFrame0, exampleFrame1] [10, 20] [] = Inr out
      \<and> readSAGFile (Inr out)
          = Inr (decoded, replicate (length [exampleFrame0, exampleFrame1]) ([10, 20 :: int] ! 0))
      \<and> map indexGrid decoded = map indexGrid [exampleFrame0, exampleFrame1]
      \<and> map Rect decoded = map Rect [exampleFrame0, exampleFrame1]"
    by (rule roundtrip_indices [where w = 2 and h = 2])
      (simp_all add: example_grids okStorage_def)
  then obtain out decoded where
    "writeSAGFile okStorage [exampleFrame0, exampleFrame1] [10, 20] [] = Inr out"
    "readSAGFile (Inr out) = Inr (decoded, [10, 10])"
    "map indexGrid decoded = [[[0, 0], [1, 1]], [[0, 1], [0, 1]]]"
    by (auto simp: example_grids numeral_2_eq_2)
  then show ?thesis
    by (auto simp: example_grids okStorage_def)
qed

text \<open>
  C1 as stated fails: with the first delay 6554 the stored delay is
  \<open>65540 mod 65536 = 4\<close> milliseconds, and the decoded delay list is \<open>[0]\<close>, not
  \<open>[6554]\<close>.
\<close>

theorem roundtrip_delay_counterexample:
  "\<not> isl (writeSAGFile okStorage [blankFrame 1 1] [6554] [])
   \<and> \<not> isl (readSAGFile (Inr (projr (writeSAGFile okStorage [blankFrame 1 1] [6554] []))))
   \<and> snd (projr (readSAGFile (Inr (projr (writeSAGFile okStorage [blankFrame 1 1] [6554] [])))))
       = [0]
   \<and> [0] \<noteq> replicate 1 (6554 :: int)"
proof -
  have "\<exists>out cp. length cp = 768 \<and> writeSAGFile okStorage [blankFrame 1 1] [6554] [] = Inr out
      \<and> readSAGFile (Inr out)
        = Inr (map (decodedFrame (extractPalette (sagHeader [blankFrame 1 1] [6554] cp))
                      (Dx (Rect ([blankFrame 1 1] ! 0)) mod 65536)
                      (Dy (Rect ([blankFrame 1 1] ! 0)) mod 65536)) [blankFrame 1 1],
               replicate (length [blankFrame 1 1]) ((([6554] ! 0 * 10) mod 65536) div 10))"
    by (rule roundtrip_general) (simp_all add: okStorage_def)
  then obtain out dec where "writeSAGFile okStorage [blankFrame 1 1] [6554] [] = Inr out"
    "readSAGFile (Inr out) = Inr (dec, [0])"
    by auto
  then show ?thesis by simp
qed

text \<open>
  The encoder reads the pixels \<open>(x, y)\<close> with \<open>0 \<le> x < Dx\<close> and \<open>0 \<le> y < Dy\<close>, whatever
  the frame's bounds are, and \<open>ColorIndexAt\<close> is 0 outside the bounds. So a frame whose bounds
  do not start at the origin is not reproduced: the frame \<open>offsetFrame\<close> holds the index 5
  and decodes to a 1x1 frame that holds the index 0.
\<close>

lemma offset_frame_not_reproduced:
  "indexGrid offsetFrame = [[5]]
   \<and> \<not> isl (writeSAGFile okStorage [offsetFrame] [10] [])
   \<and> \<not> isl (readSAGFile (Inr (projr (writeSAGFile okStorage [offsetFrame] [10] []))))
   \<and> map indexGrid
         (fst (projr (readSAGFile (Inr (projr (writeSAGFile okStorage [offsetFrame] [10] []))))))
       = [[[0]]]"
proof -
  have R: "Rect offsetFrame = \<lparr>MinX = 1, MinY = 1, MaxX = 2, MaxY = 2\<rparr>"
    by (simp add: offsetFrame_def blankFrame_def imageRect_def)
  have g: "indexGrid offsetFrame = [[5]]"
    by (simp add: indexGrid_def R upto_rec1 ColorIndexAt_def PointIn_def)
      (simp add: offsetFrame_def blankFrame_def imageRect_def SetColorIndex_def PointIn_def)
  have z: "ColorIndexAt offsetFrame 0 0 = 0"
    by (simp add: ColorIndexAt_def R PointIn_def)
  have "\<exists>out cp. length cp = 768 \<and> writeSAGFile okStorage [offsetFrame] [10] [] = Inr out
      \<and> readSAGFile (Inr out)
        = Inr (map (decodedFrame (extractPalette (sagHeader [offsetFrame] [10] cp))
                      (Dx (Rect ([offsetFrame] ! 0)) mod 65536)
                      (Dy (Rect ([offsetFrame] ! 0)) mod 65536)) [offsetFrame],
               replicate (length [offsetFrame]) ((([10] ! 0 * 10) mod 65536) div 10))"
    by (rule roundtrip_general) (simp_all add: okStorage_def)
  then obtain out cp where 2: "writeSAGFile okStorage [offsetFrame] [10] [] = Inr out"
    "readSAGFile (Inr out)
        = Inr ([decodedFrame (extractPalette (sagHeader [offsetFrame] [10] cp)) 1 1 offsetFrame],
               [10])"
    by (auto simp: R Dx_def Dy_def)
  have d: "indexGrid (decodedFrame (extractPalette (sagHeader [offsetFrame] [10] cp)) 1 1
      offsetFrame) = [[0]]"
    by (simp add: indexGrid_def decodedFrame_Rect decodedFrame_ColorIndexAt upto_rec1 z)
  show ?thesis by (simp add: 2 g d)
qed

section \<open>Truncated streams\<close>

lemma twoPixelHeader_fields:
  "uint (Width twoPixelHeader) = 2" "uint (Height twoPixelHeader) = 1"
  "uint (FrameCount twoPixelHeader) = 1" "uint (FrameDelay twoPixelHeader) = 100"
  "length (Signature twoPixelHeader) = 3" "length (ColorPalette twoPixelHeader) = 768"
  by (simp_all add: twoPixelHeader_def sagHeader_def twoPixelFrame_def blankFrame_def
      imageRect_def Dx_def Dy_def)

lemma twoPixel_encoded:
  "writeSAGFile okStorage [twoPixelFrame] [10] [] = Inr (headerBytes twoPixelHeader @ [0, 5, 7])"
proof -
  have u: "[0..0] = [0 :: int]" by (simp add: upto_rec1)
  have e: "ColorIndexAt twoPixelFrame 0 0 = 5" "ColorIndexAt twoPixelFrame 1 0 = 7"
    by (simp_all add: twoPixelFrame_def blankFrame_def imageRect_def
        ColorIndexAt_def SetColorIndex_def PointIn_def)
  have "writeSAGFile okStorage [twoPixelFrame] [10] [] =
     Inr (headerBytes twoPixelHeader
          @ concat (map (frameBytes [twoPixelFrame] (uint (Width twoPixelHeader))
                           (uint (Height twoPixelHeader))) [0..<length [twoPixelFrame]]))"
    unfolding twoPixelHeader_def
    by (rule writeSAGFile_closed) (simp_all add: okStorage_def)
  then show ?thesis
    by (simp add: twoPixelHeader_fields frameBytes_def rowBytes_def blockBytes_def
        blockStarts_small u prevOf_def identicalMask_first blockPixels_def upto_rec1 e)
qed

lemma truncated_frames:
  "readSAGFrames [0, 5] twoPixelHeader =
     Inr ([applyPixelBlock \<lparr>Rect = imageRect 0 0 2 1, Pix = (\<lambda>_. 0),
                              Palette = extractPalette twoPixelHeader\<rparr> [5, 0] 0 0 2], [10])"
proof -
  have u: "[0..0] = [0 :: int]" by (simp add: upto_rec1)
  have rp: "readPixelBlock [5] 2 0 = (([5, 0], None), [])"
    by (simp add: readPixelBlock_def fileRead_def numeral_2_eq_2)
  have rb: "\<And>fr. readBlock 2 0 0 ([0, 5], fr) = Inr ([], applyPixelBlock fr [5, 0] 0 0 2)"
    by (simp add: readBlock_def skipIdenticalByte_Cons rp)
  have rr: "\<And>fr. readRow 2 0 ([0, 5], fr) = Inr ([], applyPixelBlock fr [5, 0] 0 0 2)"
    by (simp add: readRow_def forLoopBy8_foldE blockStarts_small rb)
  have n: "NewPaletted (imageRect 0 0 2 1) (extractPalette twoPixelHeader)
      = Inr \<lparr>Rect = imageRect 0 0 2 1, Pix = (\<lambda>_. 0), Palette = extractPalette twoPixelHeader\<rparr>"
    by (simp add: NewPaletted_def imageRect_def Dx_def Dy_def)
  show ?thesis
    unfolding readSAGFrames_def Let_def twoPixelHeader_fields forLoop_foldE
    by (simp add: u readFrame_def n forLoop_foldE rr)
qed

text \<open>
  C6 (the code at a failing input). A 2x1 frame with the indices 5 and 7 is encoded as the
  header followed by \<open>[0, 5, 7]\<close>. With the last byte cut off, \<open>file.Read\<close> fills one of
  the two bytes of the block and reports no error: \<open>readSAGFile\<close> returns a frame with the
  indices 5 and 0. With the whole block cut off, the read is at the end of the file and
  the error \<open>io.EOF\<close> is returned.
\<close>

theorem truncated_block_decodes:
  "writeSAGFile okStorage [twoPixelFrame] [10] [] = Inr (headerBytes twoPixelHeader @ [0, 5, 7])
   \<and> indexGrid twoPixelFrame = [[5, 7]]
   \<and> \<not> isl (readSAGFile (Inr (headerBytes twoPixelHeader @ [0, 5])))
   \<and> map indexGrid (fst (projr (readSAGFile (Inr (headerBytes twoPixelHeader @ [0, 5])))))
       = [[[5, 0]]]
   \<and> snd (projr (readSAGFile (Inr (headerBytes twoPixelHeader @ [0, 5])))) = [10]
   \<and> readSAGFile (Inr (headerBytes twoPixelHeader @ [0])) = Inl EOF"
proof -
  have hd: "readSAGHeader (headerBytes twoPixelHeader @ [0, 5]) = Inr (twoPixelHeader, [0, 5])"
    by (rule readSAGHeader_headerBytes) (simp_all add: twoPixelHeader_fields)
  have r: "readSAGFile (Inr (headerBytes twoPixelHeader @ [0, 5])) =
     Inr ([applyPixelBlock \<lparr>Rect = imageRect 0 0 2 1, Pix = (\<lambda>_. 0),
                              Palette = extractPalette twoPixelHeader\<rparr> [5, 0] 0 0 2], [10])"
    by (simp add: readSAGFile_def hd truncated_frames)
  have g: "indexGrid (applyPixelBlock \<lparr>Rect = imageRect 0 0 2 1, Pix = (\<lambda>_. 0),
                              Palette = extractPalette twoPixelHeader\<rparr> [5, 0] 0 0 2) = [[5, 0]]"
    by (simp add: indexGrid_def applyPixelBlock_def imageRect_def ColorIndexAt_def
        SetColorIndex_def PointIn_def upto_rec1)
  have s: "indexGrid twoPixelFrame = [[5, 7]]"
    by (simp add: indexGrid_def twoPixelFrame_def blankFrame_def imageRect_def ColorIndexAt_def
        SetColorIndex_def PointIn_def upto_rec1)
  have hd0: "readSAGHeader (headerBytes twoPixelHeader @ [0]) = Inr (twoPixelHeader, [0])"
    by (rule readSAGHeader_headerBytes) (simp_all add: twoPixelHeader_fields)
  have u: "[0..0] = [0 :: int]" by (simp add: upto_rec1)
  have rp0: "readPixelBlock [] 2 0 = (([0, 0], Some EOF), [])"
    by (simp add: readPixelBlock_def fileRead_def numeral_2_eq_2)
  have rb0: "\<And>fr. readBlock 2 0 0 ([0], fr) = Inl EOF"
    by (simp add: readBlock_def skipIdenticalByte_Cons rp0)
  have rr0: "\<And>fr. readRow 2 0 ([0], fr) = Inl EOF"
    by (simp add: readRow_def forLoopBy8_foldE blockStarts_small rb0)
  have n: "NewPaletted (imageRect 0 0 2 1) (extractPalette twoPixelHeader)
      = Inr \<lparr>Rect = imageRect 0 0 2 1, Pix = (\<lambda>_. 0), Palette = extractPalette twoPixelHeader\<rparr>"
    by (simp add: NewPaletted_def imageRect_def Dx_def Dy_def)
  have e: "readSAGFrames [0] twoPixelHeader = Inl EOF"
    unfolding readSAGFrames_def Let_def twoPixelHeader_fields forLoop_foldE
    by (simp add: u readFrame_def n forLoop_foldE rr0)
  have r0: "readSAGFile (Inr (headerBytes twoPixelHeader @ [0])) = Inl EOF"
    by (simp add: readSAGFile_def hd0 e)
  show ?thesis by (simp add: twoPixel_encoded r g s r0)
qed

section \<open>Palette extraction\<close>

text \<open>
  C4 (as amended). Where \<open>sort.Slice\<close> meets its contract on the slice built from the map,
  the slice after sorting is a permutation of the entries in which the counts do not
  increase, and \<open>ExtractPalette\<close> returns all of its colours when \<open>maxColors\<close> is \<open>-1\<close>,
  panics when \<open>maxColors\<close> is below \<open>-1\<close> (\<open>make\<close> with a negative length), and otherwise
  returns its first \<open>min(maxColors, distinctColorCount)\<close> colours.
\<close>

theorem ExtractPalette_cap:
  assumes "sortSliceContract sortSlice byCountDesc (entries colorCount)"
  shows "let sorted = sortSlice byCountDesc (entries colorCount) in
           mset sorted = mset (entries colorCount)
           \<and> sorted_wrt (\<lambda>a b. Count b \<le> Count a) sorted
           \<and> ExtractPalette sortSlice colorCount maxColors =
               (if maxColors = -1 then Inr (map Color sorted)
                else if maxColors < 0 then Inl MakeSliceLen
                else Inr (map Color (take (min (nat maxColors) (length colorCount)) sorted)))
           \<and> (0 \<le> maxColors \<longrightarrow>
                length (take (min (nat maxColors) (length colorCount)) sorted)
                  = min (nat maxColors) (length colorCount))"
proof -
  let ?s = "sortSlice byCountDesc (entries colorCount)"
  have m: "mset ?s = mset (entries colorCount)"
    using assms by (simp add: sortSliceContract_def)
  have s: "sorted_wrt (\<lambda>a b. Count b \<le> Count a) ?s"
    using assms by (simp add: sortSliceContract_def byCountDesc_def not_less)
  have l: "length ?s = length colorCount"
    using mset_eq_length [OF m] by (simp add: entries_def)
  have e: "ExtractPalette sortSlice colorCount maxColors =
               (if maxColors = -1 then Inr (map Color ?s)
                else if maxColors < 0 then Inl MakeSliceLen
                else Inr (map Color (take (min (nat maxColors) (length colorCount)) ?s)))"
    using l by (auto simp: ExtractPalette_def Let_def entries_def min_def)
  from m s e l show ?thesis by (simp add: Let_def)
qed

lemma insertionSort_three:
  "insertionSort byCountDesc (entries [(white, 1), (black, 3), (pureRed, 2)])
     = entries [(black, 3), (pureRed, 2), (white, 1)]"
  by (simp add: insertionSort_def entries_def byCountDesc_def)

text \<open>
  Three colours with the counts 1, 3 and 2: the cap 2 gives the two most frequent ones,
  \<open>-1\<close> and the cap 7 give all three.
\<close>

theorem ExtractPalette_cap_witness:
  "sortSliceContract insertionSort byCountDesc (entries [(white, 1), (black, 3), (pureRed, 2)])
   \<and> ExtractPalette insertionSort [(white, 1), (black, 3), (pureRed, 2)] 2 = Inr [black, pureRed]
   \<and> ExtractPalette insertionSort [(white, 1), (black, 3), (pureRed, 2)] (-1)
       = Inr [black, pureRed, white]
   \<and> ExtractPalette insertionSort [(white, 1), (black, 3), (pureRed, 2)] 7
       = Inr [black, pureRed, white]"
proof -
  have c: "sortSliceContract insertionSort byCountDesc
      (entries [(white, 1), (black, 3), (pureRed, 2)])"
    unfolding sortSliceContract_def insertionSort_three
    by (simp add: entries_def byCountDesc_def)
  show ?thesis
    using ExtractPalette_cap [OF c, of 2] ExtractPalette_cap [OF c, of "-1"]
      ExtractPalette_cap [OF c, of 7] c
    by (simp add: Let_def insertionSort_three) (simp add: entries_def)
qed

text \<open>
  C4 as stated fails: for \<open>maxColors = -2\<close> no colours are returned.
\<close>

theorem ExtractPalette_negative_counterexample:
  "sortSliceContract insertionSort byCountDesc (entries [(white, 1), (black, 3), (pureRed, 2)])
   \<and> (-2 :: int) < 0
   \<and> ExtractPalette insertionSort [(white, 1), (black, 3), (pureRed, 2)] (-2) = Inl MakeSliceLen"
proof -
  have c: "sortSliceContract insertionSort byCountDesc
      (entries [(white, 1), (black, 3), (pureRed, 2)])"
    unfolding sortSliceContract_def insertionSort_three
    by (simp add: entries_def byCountDesc_def)
  have "ExtractPalette insertionSort [(white, 1), (black, 3), (pureRed, 2)] (-2) = Inl MakeSliceLen"
    using insertionSort_three by (simp add: ExtractPalette_def Let_def entries_def)
  with c show ?thesis by simp
qed

lemma black_less_white:
  "sortColorsLess \<lparr>Color = black, Count = 1\<rparr> \<lparr>Color = white, Count = 1\<rparr>"
  "\<not> sortColorsLess \<lparr>Color = white, Count = 1\<rparr> \<lparr>Color = black, Count = 1\<rparr>"
  by (simp_all add: sortColorsLess_def RGBA_def black_def white_def colorRGBA_def widen8_def)

text \<open>
  C5 (the code at a failing input). Two colours with the same count: \<open>ExtractPalette\<close>
  returns them in the order in which \<open>range\<close> visited the map, white before black in one
  run and black before white in another, although black is below white in the
  \<open>(R, G, B, A)\<close> order; \<open>sortColors\<close>, the package's other ordering, gives black before
  white for both.
\<close>

theorem ExtractPalette_tie_order:
  "ExtractPalette insertionSort [(white, 1), (black, 1)] 256 = Inr [white, black]
   \<and> ExtractPalette insertionSort [(black, 1), (white, 1)] 256 = Inr [black, white]
   \<and> sortSliceContract insertionSort byCountDesc (entries [(white, 1), (black, 1)])
   \<and> sortSliceContract insertionSort byCountDesc (entries [(black, 1), (white, 1)])
   \<and> sortColorsLess \<lparr>Color = black, Count = 1\<rparr> \<lparr>Color = white, Count = 1\<rparr>
   \<and> map Color (sortColors insertionSort (entries [(white, 1), (black, 1)])) = [black, white]
   \<and> map Color (sortColors insertionSort (entries [(black, 1), (white, 1)])) = [black, white]"
  by (simp add: ExtractPalette_def Let_def insertionSort_def byCountDesc_def entries_def
      sortSliceContract_def sortColors_def black_less_white)

section \<open>Quantization\<close>

lemma applyPalettePixel_pixelValue:
  "applyPalettePixel frame palette y x newFrame =
     (case pixelValue frame palette x y of
        Inl err \<Rightarrow> Inl err
      | Inr v \<Rightarrow> Inr (SetColorIndex newFrame x y v))"
  by (simp add: applyPalettePixel_def pixelValue_def Let_def split: sum.splits option.splits)

lemma foldE_all_ok:
  "(\<And>x s. x \<in> set xs \<Longrightarrow> body x s = Inr (h x s)) \<Longrightarrow> foldE body xs s = Inr (fold h xs s)"
  by (induction xs arbitrary: s) simp_all

lemma foldE_some_fail:
  "x \<in> set xs \<Longrightarrow> (\<And>s. isl (body x s)) \<Longrightarrow> isl (foldE body xs s)"
proof (induction xs arbitrary: s)
  case Nil
  then show ?case by simp
next
  case (Cons a xs)
  show ?case
  proof (cases "body a s")
    case (Inl e)
    then show ?thesis by simp
  next
    case (Inr s')
    with Cons.prems(2) [of s] have "a \<noteq> x" by auto
    with Cons.prems(1) have "x \<in> set xs" by simp
    from Cons.IH [OF this Cons.prems(2)] Inr show ?thesis by simp
  qed
qed

lemma row_ok:
  assumes "\<And>x. x \<in> set cols \<Longrightarrow> \<not> isl (pixelValue frame palette x y)"
  shows "foldE (applyPalettePixel frame palette y) cols s
     = Inr (fold (setPixel frame palette y) cols s)"
proof (rule foldE_all_ok)
  fix x s
  assume "x \<in> set cols"
  from assms [OF this] obtain v where "pixelValue frame palette x y = Inr v"
    by (cases "pixelValue frame palette x y") auto
  then show "applyPalettePixel frame palette y x s = Inr (setPixel frame palette y x s)"
    by (simp add: applyPalettePixel_pixelValue setPixel_def)
qed

lemma row_fail:
  assumes "x \<in> set cols" "isl (pixelValue frame palette x y)"
  shows "isl (foldE (applyPalettePixel frame palette y) cols s)"
proof (rule foldE_some_fail [OF assms(1)])
  fix s
  from assms(2) show "isl (applyPalettePixel frame palette y x s)"
    by (cases "pixelValue frame palette x y") (auto simp: applyPalettePixel_pixelValue)
qed

lemma fold_setPixel_Rect [simp]: "Rect (fold (setPixel frame palette y) cols s) = Rect s"
  by (induction cols arbitrary: s) (simp_all add: setPixel_def)

lemma fold_setPixel_Palette [simp]: "Palette (fold (setPixel frame palette y) cols s) = Palette s"
  by (induction cols arbitrary: s) (simp_all add: setPixel_def)

lemma fold_setPixel_Pix:
  "Pix (fold (setPixel frame palette y) cols s) (x', y') =
     (if y' = y \<and> x' \<in> set cols \<and> PointIn x' y' (Rect s)
      then projr (pixelValue frame palette x' y') else Pix s (x', y'))"
proof (induction cols arbitrary: s)
  case Nil
  then show ?case by simp
next
  case (Cons x cols)
  have R: "Rect (setPixel frame palette y x s) = Rect s" by (simp add: setPixel_def)
  have P: "Pix (setPixel frame palette y x s) (x', y') =
      (if x' = x \<and> y' = y \<and> PointIn x y (Rect s)
       then projr (pixelValue frame palette x y) else Pix s (x', y'))"
    by (simp add: setPixel_def SetColorIndex_def)
  show ?case unfolding fold_simps Cons.IH R P by auto
qed

lemma fold_rows_setPixel_Rect [simp]:
  "Rect (fold (\<lambda>y. fold (setPixel frame palette y) cols) rows s) = Rect s"
  by (induction rows arbitrary: s) simp_all

lemma fold_rows_setPixel_Palette [simp]:
  "Palette (fold (\<lambda>y. fold (setPixel frame palette y) cols) rows s) = Palette s"
  by (induction rows arbitrary: s) simp_all

lemma fold_rows_setPixel_Pix:
  "Pix (fold (\<lambda>y. fold (setPixel frame palette y) cols) rows s) (x', y') =
     (if y' \<in> set rows \<and> x' \<in> set cols \<and> PointIn x' y' (Rect s)
      then projr (pixelValue frame palette x' y') else Pix s (x', y'))"
proof (induction rows arbitrary: s)
  case Nil
  then show ?case by simp
next
  case (Cons y rows)
  show ?case unfolding fold_simps Cons.IH fold_setPixel_Rect fold_setPixel_Pix by auto
qed

lemma applyPalette_ok:
  assumes "0 \<le> Dx (Rect frame)" "0 \<le> Dy (Rect frame)" "allPixelsOk frame palette"
  shows "applyPalette frame palette = Inr (applied frame palette)"
proof -
  let ?R = "Rect frame"
  let ?s0 = "\<lparr>Rect = ?R, Pix = (\<lambda>_. 0), Palette = palette\<rparr>"
  let ?cols = "[MinX ?R..MaxX ?R - 1]"
  let ?rows = "[MinY ?R..MaxY ?R - 1]"
  have n: "NewPaletted ?R palette = Inr ?s0" using assms(1,2) by (simp add: NewPaletted_def)
  have rows: "foldE (\<lambda>y. foldE (applyPalettePixel frame palette y) ?cols) ?rows ?s0
      = Inr (fold (\<lambda>y. fold (setPixel frame palette y) ?cols) ?rows ?s0)"
  proof (rule foldE_all_ok)
    fix y s
    assume y: "y \<in> set ?rows"
    show "foldE (applyPalettePixel frame palette y) ?cols s = Inr (fold (setPixel frame palette y) ?cols s)"
    proof (rule row_ok)
      fix x
      assume "x \<in> set ?cols"
      with y have "PointIn x y ?R" by (simp add: PointIn_def)
      with assms(3) show "\<not> isl (pixelValue frame palette x y)" by (simp add: allPixelsOk_def)
    qed
  qed
  have eq: "fold (\<lambda>y. fold (setPixel frame palette y) ?cols) ?rows ?s0 = applied frame palette"
  proof (rule Paletted.equality)
    show "Pix (fold (\<lambda>y. fold (setPixel frame palette y) ?cols) ?rows ?s0) = Pix (applied frame palette)"
      by (rule ext) (auto simp: fold_rows_setPixel_Pix applied_def PointIn_def)
  qed (simp_all add: applied_def)
  have l: "(\<lambda>y. forLoop (MinX ?R) (MaxX ?R) (applyPalettePixel frame palette y))
      = (\<lambda>y. foldE (applyPalettePixel frame palette y) ?cols)"
    by (rule ext)+ (simp add: forLoop_foldE)
  show ?thesis
    unfolding applyPalette_def Let_def n forLoop_foldE [of "MinY ?R"] l
    using rows eq by simp
qed

lemma applyPalette_fail:
  assumes "\<not> allPixelsOk frame palette"
  shows "isl (applyPalette frame palette)"
proof (cases "NewPaletted (Rect frame) palette")
  case (Inl e)
  then show ?thesis by (simp add: applyPalette_def)
next
  case (Inr s0)
  let ?R = "Rect frame"
  let ?cols = "[MinX ?R..MaxX ?R - 1]"
  let ?rows = "[MinY ?R..MaxY ?R - 1]"
  from assms obtain x y where xy: "PointIn x y ?R" "isl (pixelValue frame palette x y)"
    by (auto simp: allPixelsOk_def)
  then have mem: "x \<in> set ?cols" "y \<in> set ?rows" by (simp_all add: PointIn_def)
  have "isl (foldE (\<lambda>y. foldE (applyPalettePixel frame palette y) ?cols) ?rows s0)"
    by (rule foldE_some_fail [OF mem(2)]) (rule row_fail [OF mem(1) xy(2)])
  moreover have l: "(\<lambda>y. forLoop (MinX ?R) (MaxX ?R) (applyPalettePixel frame palette y))
      = (\<lambda>y. foldE (applyPalettePixel frame palette y) ?cols)"
    by (rule ext)+ (simp add: forLoop_foldE)
  ultimately show ?thesis
    unfolding applyPalette_def Let_def Inr forLoop_foldE [of "MinY ?R"] l by simp
qed

lemma applyPalette_Inr:
  assumes "applyPalette frame palette = Inr f1"
  shows "f1 = applied frame palette \<and> allPixelsOk frame palette
     \<and> 0 \<le> Dx (Rect frame) \<and> 0 \<le> Dy (Rect frame)"
proof -
  have ok: "allPixelsOk frame palette"
    using applyPalette_fail [of frame palette] assms by auto
  have d: "0 \<le> Dx (Rect frame) \<and> 0 \<le> Dy (Rect frame)"
    using assms by (auto simp: applyPalette_def NewPaletted_def Let_def split: if_splits)
  with applyPalette_ok [of frame palette] ok assms show ?thesis by simp
qed

lemma sum_squares_zero:
  "(a :: int)\<^sup>2 + b\<^sup>2 + c\<^sup>2 = 0 \<Longrightarrow> a = 0 \<and> b = 0 \<and> c = 0"
proof -
  assume h: "a\<^sup>2 + b\<^sup>2 + c\<^sup>2 = 0"
  have "0 \<le> a\<^sup>2" "0 \<le> b\<^sup>2" "0 \<le> c\<^sup>2" by simp_all
  with h have "a\<^sup>2 = 0" "b\<^sup>2 = 0" "c\<^sup>2 = 0" by linarith+
  then show ?thesis by simp
qed

lemma dist_self: "colorDistanceSquared a a = 0"
  by (simp add: colorDistanceSquared_eq rgbDistanceSquared_def)

lemma dist_zero_same:
  "colorDistanceSquared a b = 0 \<Longrightarrow> colorDistanceSquared c a = colorDistanceSquared c b"
  unfolding colorDistanceSquared_eq rgbDistanceSquared_def
  by (drule sum_squares_zero) simp

lemma NearestColorIndex_fixed:
  assumes "palette \<noteq> []" "NearestColorIndex palette c = int j"
  shows "NearestColorIndex palette (palette ! j) = int j"
proof -
  from nearest_first_min [OF assms(1), of c] assms(2)
  have j: "j < length palette"
    "\<forall>j' < j. colorDistanceSquared c (palette ! j) < colorDistanceSquared c (palette ! j')"
    by auto
  let ?t = "palette ! j"
  from nearest_first_min [OF assms(1), of ?t]
  obtain k where k: "k < length palette" "NearestColorIndex palette ?t = int k"
    "\<forall>j' < k. colorDistanceSquared ?t (palette ! k) < colorDistanceSquared ?t (palette ! j')"
    "\<forall>j' < length palette. colorDistanceSquared ?t (palette ! k) \<le> colorDistanceSquared ?t (palette ! j')"
    by blast
  have "colorDistanceSquared ?t (palette ! k) \<le> 0" using k(4) j(1) dist_self [of ?t] by metis
  then have z: "colorDistanceSquared ?t (palette ! k) = 0"
    using colorDistanceSquared_bounds [of ?t "palette ! k"] by simp
  have same: "colorDistanceSquared c ?t = colorDistanceSquared c (palette ! k)"
    by (rule dist_zero_same [OF z])
  have "\<not> k < j" using j(2) same by auto
  moreover have "\<not> j < k" using k(3) z dist_self [of ?t] by auto
  ultimately have "k = j" by simp
  with k(2) show ?thesis by simp
qed

lemma NearestColorIndex_range:
  "palette \<noteq> [] \<Longrightarrow> \<exists>j < length palette. NearestColorIndex palette c = int j"
  using nearest_first_min [of palette c] by blast

lemma unat_byte_of_nat: "j < 256 \<Longrightarrow> unat (of_int (int j) :: byte) = j"
  by (simp add: unat_of_nat)

lemma applied_fixed:
  assumes "palette \<noteq> []" "length palette \<le> 256" "allPixelsOk frame palette"
    and xy: "PointIn x y (Rect frame)"
  shows "pixelValue (applied frame palette) palette x y = pixelValue frame palette x y
     \<and> \<not> isl (pixelValue frame palette x y)"
proof -
  from assms(3) xy have ok: "\<not> isl (pixelValue frame palette x y)" by (simp add: allPixelsOk_def)
  then obtain c where c: "At frame x y = Inr (Some c)"
    using assms(1) by (auto simp: pixelValue_def split: sum.splits option.splits)
  from NearestColorIndex_range [OF assms(1), of c]
  obtain j where j: "j < length palette" "NearestColorIndex palette c = int j" by blast
  have v: "pixelValue frame palette x y = Inr (of_int (int j))"
    by (simp add: pixelValue_def c j(2))
  have u: "unat (of_int (int j) :: byte) = j"
    using j(1) assms(2) by (intro unat_byte_of_nat) simp
  have "At (applied frame palette) x y = Inr (Some (palette ! j))"
    using assms(1) xy j(1) u by (simp add: At_def applied_def v Let_def)
  then have "pixelValue (applied frame palette) palette x y
      = Inr (of_int (NearestColorIndex palette (palette ! j)))"
    by (simp add: pixelValue_def)
  with NearestColorIndex_fixed [OF assms(1) j(2)] v ok show ?thesis by simp
qed

lemma applied_idem:
  assumes "palette \<noteq> []" "length palette \<le> 256" "allPixelsOk frame palette"
  shows "allPixelsOk (applied frame palette) palette
     \<and> applied (applied frame palette) palette = applied frame palette"
proof -
  have R: "Rect (applied frame palette) = Rect frame" by (simp add: applied_def)
  have ok: "allPixelsOk (applied frame palette) palette"
    unfolding allPixelsOk_def R using applied_fixed [OF assms] by simp
  have "applied (applied frame palette) palette = applied frame palette"
  proof (rule Paletted.equality)
    show "Pix (applied (applied frame palette) palette) = Pix (applied frame palette)"
    proof (rule ext)
      fix p :: "int \<times> int"
      obtain x y where p: "p = (x, y)" by (cases p)
      show "Pix (applied (applied frame palette) palette) p = Pix (applied frame palette) p"
        unfolding p using applied_fixed [OF assms, of x y]
        by (simp add: applied_def)
    qed
  qed (simp_all add: applied_def)
  with ok show ?thesis by simp
qed

lemma validFrame_ok:
  assumes "validFrame frame" "palette \<noteq> []"
  shows "allPixelsOk frame palette"
  unfolding allPixelsOk_def
proof (intro allI impI)
  fix x y
  assume "PointIn x y (Rect frame)"
  then have "unat (Pix frame (x, y)) < length (Palette frame)" "PointIn x y (Rect frame)"
    using assms(1) by (auto simp: validFrame_def list_all_iff PointIn_def)
  moreover have "Palette frame \<noteq> []" using assms(1) by (simp add: validFrame_def)
  ultimately show "\<not> isl (pixelValue frame palette x y)"
    by (simp add: pixelValue_def At_def Let_def)
qed


lemma unit_rect: "PointIn x y (imageRect 0 0 1 1) \<longleftrightarrow> x = 0 \<and> y = 0"
  by (auto simp: PointIn_def imageRect_def)

lemma dist_values:
  "colorDistanceSquared white white = 0" "colorDistanceSquared white black = 195075"
  "colorDistanceSquared black black = 0" "colorDistanceSquared black white = 195075"
  "colorDistanceSquared pureRed black = 65025" "colorDistanceSquared pureRed white = 130050"
  by (simp_all add: colorDistanceSquared_eq rgbDistanceSquared_def top8_def white_def black_def
      pureRed_def colorRGBA_def widen8_def)

lemma bigPalette_nth:
  "length bigPalette = 258" "bigPalette \<noteq> []"
  "j < 257 \<Longrightarrow> bigPalette ! j = black" "bigPalette ! 257 = white"
  by (simp_all add: bigPalette_def nth_append)

lemma nearest_white: "NearestColorIndex bigPalette white = 257"
proof -
  from nearest_first_min [OF bigPalette_nth(2), of white]
  obtain j where j: "j < 258" "NearestColorIndex bigPalette white = int j"
    "\<forall>j' < length bigPalette. colorDistanceSquared white (bigPalette ! j)
        \<le> colorDistanceSquared white (bigPalette ! j')"
    by (auto simp: bigPalette_nth(1))
  from j(3) have "colorDistanceSquared white (bigPalette ! j)
      \<le> colorDistanceSquared white (bigPalette ! 257)"
    by (simp add: bigPalette_nth(1))
  then have "colorDistanceSquared white (bigPalette ! j) \<le> 0"
    by (simp add: bigPalette_nth(4) dist_values(1))
  then have "\<not> j < 257" using bigPalette_nth(3) [of j] dist_values(2) by auto
  with j(1) have "j = 257" by simp
  with j(2) show ?thesis by simp
qed

lemma nearest_black: "NearestColorIndex bigPalette black = 0"
proof -
  from nearest_first_min [OF bigPalette_nth(2), of black]
  obtain j where j: "NearestColorIndex bigPalette black = int j"
    "\<forall>j' < j. colorDistanceSquared black (bigPalette ! j) < colorDistanceSquared black (bigPalette ! j')"
    by blast
  have "\<not> 0 < j"
  proof
    assume "0 < j"
    with j(2) have "colorDistanceSquared black (bigPalette ! j) < colorDistanceSquared black (bigPalette ! 0)"
      by blast
    then show False
      using bigPalette_nth(3) [of 0] dist_values(3) colorDistanceSquared_bounds [of black "bigPalette ! j"]
      by simp
  qed
  with j(1) show ?thesis by simp
qed

lemma applied_sel:
  "Rect (applied f p) = Rect f" "Palette (applied f p) = p"
  "Pix (applied f p) (x, y) = (if PointIn x y (Rect f) then projr (pixelValue f p x y) else 0)"
  by (simp_all add: applied_def)



end
